theory Spec2Isabelle
  imports Main "HOL-Library.Word"
begin

unbundle bit_operations_syntax

section \<open>Data model of openebdmini.c\<close>

text \<open>
  The firmware keeps its whole state in file-scope variables and in memory-mapped
  registers. The model is one record that holds the variables of \<^verbatim>\<open>openebdmini.c\<close>
  with their C types (\<^verbatim>\<open>uint16_t\<close> is \<open>16 word\<close>, \<^verbatim>\<open>uint8_t\<close> is \<open>8 word\<close>,
  \<^verbatim>\<open>uint32_t\<close> is \<open>32 word\<close>), the registers the loop writes, and the bytes handed to
  the UART. Every function of the loop takes the state and returns the new one.
  The variables \<^verbatim>\<open>systick\<close>, \<^verbatim>\<open>amphours\<close> and \<^verbatim>\<open>volttrim\<close> are never read or
  written by any function and are left out.
\<close>

type_synonym uint8_t = "8 word"
type_synonym uint16_t = "16 word"
type_synonym uint32_t = "32 word"

datatype operationmode = OPMODE_OFF | OPMODE_SET | OPMODE_ON | OPMODE_LVC

text \<open>
  The enumeration \<^verbatim>\<open>displaymode\<close> ends with the marker \<^verbatim>\<open>DISPMODE_END\<close>. The variable
  \<^verbatim>\<open>dm\<close> holds the marker only between \<^verbatim>\<open>dm++\<close> and the test on the next line of
  \<^verbatim>\<open>checkbuttons\<close>, which replaces it by the first mode, so the type has the four modes.
\<close>

datatype displaymode = VOLTS | AMPS | AMPHOURS | WATTS

datatype character =
    ZERO | ONE | TWO | THREE | FOUR | FIVE | SIX | SEVEN | EIGHT | NINE
  | CHAR_A | CHAR_V | CHAR_LITTLEV | CHAR_SPACE

record characterbits =
  pbbits :: uint8_t
  pcbits :: uint8_t
  pdbits :: uint8_t
  pebits :: uint8_t

text \<open>The table \<^verbatim>\<open>cbits[]\<close>, indexed by the enumeration \<^verbatim>\<open>character\<close>.\<close>

fun cbits :: "character \<Rightarrow> characterbits" where
  "cbits ZERO = \<lparr>pbbits = 1, pcbits = push_bit 7 1 OR push_bit 6 1,
      pdbits = push_bit 2 1 OR push_bit 1 1, pebits = push_bit 5 1\<rparr>"
| "cbits ONE = \<lparr>pbbits = 1, pcbits = push_bit 7 1, pdbits = 0, pebits = 0\<rparr>"
| "cbits TWO = \<lparr>pbbits = 1, pcbits = push_bit 4 1,
      pdbits = push_bit 2 1 OR push_bit 1 1, pebits = push_bit 5 1\<rparr>"
| "cbits THREE = \<lparr>pbbits = 0, pcbits = push_bit 6 1 OR push_bit 4 1,
      pdbits = push_bit 2 1 OR push_bit 1 1, pebits = push_bit 5 1\<rparr>"
| "cbits FOUR = \<lparr>pbbits = 0, pcbits = push_bit 7 1 OR push_bit 6 1 OR push_bit 4 1,
      pdbits = 0, pebits = push_bit 5 1\<rparr>"
| "cbits FIVE = \<lparr>pbbits = 0, pcbits = push_bit 7 1 OR push_bit 6 1 OR push_bit 4 1,
      pdbits = push_bit 2 1 OR push_bit 1 1, pebits = 0\<rparr>"
| "cbits SIX = \<lparr>pbbits = 1, pcbits = push_bit 7 1 OR push_bit 6 1 OR push_bit 4 1,
      pdbits = push_bit 2 1 OR push_bit 1 1, pebits = 0\<rparr>"
| "cbits SEVEN = \<lparr>pbbits = 0, pcbits = push_bit 6 1, pdbits = push_bit 1 1,
      pebits = push_bit 5 1\<rparr>"
| "cbits EIGHT = \<lparr>pbbits = 1, pcbits = push_bit 7 1 OR push_bit 6 1 OR push_bit 4 1,
      pdbits = push_bit 2 1 OR push_bit 1 1, pebits = push_bit 5 1\<rparr>"
| "cbits NINE = \<lparr>pbbits = 0, pcbits = push_bit 7 1 OR push_bit 6 1 OR push_bit 4 1,
      pdbits = push_bit 2 1 OR push_bit 1 1, pebits = push_bit 5 1\<rparr>"
| "cbits CHAR_A = \<lparr>pbbits = 1, pcbits = push_bit 7 1 OR push_bit 6 1 OR push_bit 4 1,
      pdbits = push_bit 1 1, pebits = push_bit 5 1\<rparr>"
| "cbits CHAR_V = \<lparr>pbbits = 1, pcbits = push_bit 7 1 OR push_bit 6 1,
      pdbits = push_bit 2 1, pebits = push_bit 5 1\<rparr>"
| "cbits CHAR_LITTLEV = \<lparr>pbbits = 1, pcbits = push_bit 6 1, pdbits = push_bit 2 1,
      pebits = 0\<rparr>"
| "cbits CHAR_SPACE = \<lparr>pbbits = 0, pcbits = 0, pdbits = 0, pebits = 0\<rparr>"

text \<open>
  The table \<^verbatim>\<open>digits[]\<close>: the output register and the bit that selects each of the
  four display positions. The register of an entry is \<^verbatim>\<open>PD_ODR\<close> or \<^verbatim>\<open>PC_ODR\<close>.
\<close>

datatype port = PORT_C | PORT_D

record digit =
  odr :: port
  bitno :: nat

definition digits :: "digit list" where
  "digits = [\<lparr>odr = PORT_D, bitno = 4\<rparr>, \<lparr>odr = PORT_C, bitno = 5\<rparr>,
             \<lparr>odr = PORT_C, bitno = 3\<rparr>, \<lparr>odr = PORT_C, bitno = 2\<rparr>]"

definition SAMPLES :: nat where
  "SAMPLES = 12"

record state =
  om :: operationmode
  dm :: displaymode
  highgain :: bool
  lvc :: uint16_t
  targetamps :: uint16_t
  volts :: uint16_t
  amps :: uint16_t
  watts :: uint16_t
  loadduty :: uint16_t
  voltsamples :: "uint16_t list"
  shuntsamples :: "uint16_t list"
  volthighgainsamples :: "uint16_t list"
  sample :: uint8_t
  TIM1_CCR1H :: uint8_t
  TIM1_CCR1L :: uint8_t
  duty_writes :: "uint16_t list"
  PB_ODR :: uint8_t
  PC_ODR :: uint8_t
  PD_ODR :: uint8_t
  PE_ODR :: uint8_t
  uart_tx :: string

text \<open>
  \<open>duty_writes\<close> is not a variable of the program: it lists, oldest first, the values
  that \<^verbatim>\<open>setloadduty\<close> has loaded into the compare register of timer 1, so that a claim
  about which duties reached the load within one iteration can be stated.
  \<open>uart_tx\<close> is the sequence of bytes handed to the UART, oldest first.

  What the environment supplies in one iteration of the loop: the two data registers
  of the converter as they read after each of the three conversions, and the input
  register of port D that carries the two buttons. \<^verbatim>\<open>readadc\<close> waits for the
  end-of-conversion flag of the hardware with an empty loop; the model starts from the
  completed conversion.
\<close>

record adc_conversion =
  ADC_DRH :: uint8_t
  ADC_DRL :: uint8_t

record inputs =
  adc_shunt :: adc_conversion
  adc_vin :: adc_conversion
  adc_vin_highgain :: adc_conversion
  PD_IDR :: uint8_t

section \<open>The functions of openebdmini.c\<close>

definition FANWATTTHRESHOLD :: uint16_t where
  "FANWATTTHRESHOLD = 2500"

definition MILLIVOLTSPERSTEP :: uint32_t where
  "MILLIVOLTSPERSTEP = 20"

definition MILLIVOLTSPERSTEP_HIGHGAIN :: uint32_t where
  "MILLIVOLTSPERSTEP_HIGHGAIN = 65"

definition HIGHOFFSET :: uint32_t where
  "HIGHOFFSET = 20"

definition MICROVOLTSPERSTEP_SHUNT :: uint32_t where
  "MICROVOLTSPERSTEP_SHUNT = 68"

text \<open>The reload value of timer 1 that \<^verbatim>\<open>initload\<close> sets: the period of the PWM.\<close>

definition reloadvalue :: uint16_t where
  "reloadvalue = 1024"

text \<open>
  \<^verbatim>\<open>setloadduty\<close> writes the high and the low byte of the duty to the compare register of
  timer 1. The write to \<^verbatim>\<open>TIM1_EGR\<close> that follows only triggers the update event of the
  timer and has no register of the model to change.
\<close>

definition setloadduty :: "uint16_t \<Rightarrow> state \<Rightarrow> state" where
  "setloadduty duty s =
     s\<lparr>TIM1_CCR1H := ucast (drop_bit 8 duty AND 0xff),
       TIM1_CCR1L := ucast (duty AND 0xff),
       duty_writes := duty_writes s @ [duty]\<rparr>"

definition turnoffload :: "state \<Rightarrow> state" where
  "turnoffload s = setloadduty 1025 (s\<lparr>loadduty := 1025\<rparr>)"

definition turnonled :: "state \<Rightarrow> state" where
  "turnonled s = PB_ODR_update (\<lambda>r. r OR push_bit 1 1) s"

definition turnonfan :: "state \<Rightarrow> state" where
  "turnonfan s = PB_ODR_update (\<lambda>r. r OR push_bit 2 1) s"

definition turnofffan :: "state \<Rightarrow> state" where
  "turnofffan s = PB_ODR_update (\<lambda>r. r AND NOT (push_bit 2 1)) s"

text \<open>The fan is driven by bit 2 of \<^verbatim>\<open>PB_ODR\<close>.\<close>

definition fan_on :: "state \<Rightarrow> bool" where
  "fan_on s = bit (PB_ODR s) 2"

text \<open>
  \<^verbatim>\<open>readadc\<close> assembles the result from the two data registers:
  \<^verbatim>\<open>(((uint16_t) ADC_DRH) << 2) | ADC_DRL\<close>.
\<close>

definition readadc :: "adc_conversion \<Rightarrow> uint16_t" where
  "readadc c = push_bit 2 (ucast (ADC_DRH c)) OR ucast (ADC_DRL c)"

subsection \<open>split\<close>

text \<open>
  \<^verbatim>\<open>split(value, buffer, digits)\<close>. The first loop writes one decimal digit per round
  from position \<^verbatim>\<open>digits - 1\<close> downwards and leaves when the remaining value is zero;
  the second loop clears the positions that are left. Both loops run while
  \<^verbatim>\<open>digits > 0\<close>, so the counter is a natural number here.
\<close>

fun split_loop :: "uint16_t \<Rightarrow> uint16_t list \<Rightarrow> nat \<Rightarrow> uint16_t list \<times> nat" where
  "split_loop v buffer 0 = (buffer, 0)"
| "split_loop v buffer (Suc d) =
     (let tmp = v mod 10;
          buffer' = buffer[d := tmp];
          v' = v - tmp
      in if v' = 0 then (buffer', d) else split_loop (v' div 10) buffer' d)"

fun split_fill :: "uint16_t list \<Rightarrow> nat \<Rightarrow> uint16_t list" where
  "split_fill buffer 0 = buffer"
| "split_fill buffer (Suc d) = split_fill (buffer[d := 0]) d"

definition split :: "uint16_t \<Rightarrow> uint16_t list \<Rightarrow> nat \<Rightarrow> uint16_t list" where
  "split v buffer n = (case split_loop v buffer n of (buffer', d) \<Rightarrow> split_fill buffer' d)"

subsection \<open>checkstate\<close>

text \<open>
  The summing loop of \<^verbatim>\<open>checkstate\<close> adds the slots 0 to 11 of a window into a
  32-bit sum.
\<close>

definition window_sum :: "uint16_t list \<Rightarrow> uint32_t" where
  "window_sum w = foldl (\<lambda>acc i. acc + ucast (w ! i)) 0 [0..<SAMPLES]"

text \<open>
  \<^verbatim>\<open>checkstate\<close> in the order of the source. Lines 324 to 328: the three conversions
  are stored at the cursor and the cursor advances; \<^verbatim>\<open>sample + 1\<close> is computed in
  \<^verbatim>\<open>int\<close>, so it does not wrap at 255.
\<close>

definition checkstate_sample :: "inputs \<Rightarrow> state \<Rightarrow> state" where
  "checkstate_sample i s =
     s\<lparr>shuntsamples := (shuntsamples s)[unat (sample s) := readadc (adc_shunt i)],
       voltsamples := (voltsamples s)[unat (sample s) := readadc (adc_vin i)],
       volthighgainsamples :=
         (volthighgainsamples s)[unat (sample s) := readadc (adc_vin_highgain i)],
       sample := word_of_nat ((unat (sample s) + 1) mod SAMPLES)\<rparr>"

text \<open>
  Lines 329 to 346. Each of the three conversions starts from the quotient
  \<^verbatim>\<open>sum / SAMPLES\<close> of a 32-bit sum; every product, quotient and difference is
  computed in 32 bits, and the assignment to a 16-bit variable keeps the low 16 bits.
  The right-hand sides of the assignments are named after the variable they define.
\<close>

definition smoothed :: "uint16_t list \<Rightarrow> uint32_t" where
  "smoothed w = window_sum w div word_of_nat SAMPLES"

definition amps_of :: "uint32_t \<Rightarrow> uint16_t" where
  "amps_of shuntmean = ucast ((shuntmean * MICROVOLTSPERSTEP_SHUNT) div 20)"

definition highgainvolts_of :: "uint32_t \<Rightarrow> uint16_t" where
  "highgainvolts_of highmean = ucast (((highmean * MILLIVOLTSPERSTEP_HIGHGAIN) div 10) - HIGHOFFSET)"

definition lowgainvolts_of :: "uint32_t \<Rightarrow> uint16_t" where
  "lowgainvolts_of lowmean = ucast (lowmean * MILLIVOLTSPERSTEP)"

text \<open>Lines 339 to 343: the flag \<^verbatim>\<open>highgain\<close> and the reported \<^verbatim>\<open>volts\<close>.\<close>

definition select_volts :: "uint16_t \<Rightarrow> uint16_t \<Rightarrow> bool \<times> uint16_t" where
  "select_volts lowgainvolts highgainvolts =
     (let highgain' = (lowgainvolts \<le> 6000)
      in (highgain', if highgain' then highgainvolts else lowgainvolts))"

text \<open>Lines 345 and 346: \<^verbatim>\<open>wattstemp\<close> is 32-bit, \<^verbatim>\<open>watts\<close> its low 16 bits.\<close>

definition watts_of :: "uint16_t \<Rightarrow> uint16_t \<Rightarrow> uint16_t" where
  "watts_of a v = ucast (((ucast a :: uint32_t) * (ucast v :: uint32_t)) div 1000)"

definition checkstate_measure :: "state \<Rightarrow> state" where
  "checkstate_measure s =
     (let amps' = amps_of (smoothed (shuntsamples s));
          highgainvolts = highgainvolts_of (smoothed (volthighgainsamples s));
          lowgainvolts = lowgainvolts_of (smoothed (voltsamples s));
          (highgain', volts') = select_volts lowgainvolts highgainvolts
      in s\<lparr>amps := amps', highgain := highgain', volts := volts',
           watts := watts_of amps' volts'\<rparr>)"

text \<open>Lines 348 to 351.\<close>

definition checkstate_fan :: "state \<Rightarrow> state" where
  "checkstate_fan s = (if watts s > FANWATTTHRESHOLD then turnonfan s else turnofffan s)"

text \<open>Lines 353 to 372: the switch on the mode has the one case \<^verbatim>\<open>OPMODE_ON\<close>.\<close>

definition checkstate_switch :: "state \<Rightarrow> state" where
  "checkstate_switch s =
     (case om s of
        OPMODE_ON \<Rightarrow>
          if volts s < lvc s then turnoffload (s\<lparr>om := OPMODE_LVC\<rparr>)
          else if amps s < targetamps s then
            (if loadduty s > 300
             then setloadduty (loadduty s - 1) (s\<lparr>loadduty := loadduty s - 1\<rparr>)
             else s)
          else if amps s > targetamps s then
            (if loadduty s < 1000
             then setloadduty (loadduty s + 1) (s\<lparr>loadduty := loadduty s + 1\<rparr>)
             else s)
          else s
      | _ \<Rightarrow> s)"

definition checkstate :: "inputs \<Rightarrow> state \<Rightarrow> state" where
  "checkstate i s = checkstate_switch (checkstate_fan (checkstate_measure (checkstate_sample i s)))"

subsection \<open>sendstate\<close>

text \<open>
  Modelled from the spec: \<^verbatim>\<open>uart_puts\<close> and \<^verbatim>\<open>uart_putch\<close> are declared in \<^verbatim>\<open>uart.h\<close>,
  which is not among the sources. The spec describes them as the byte-level transport
  of the telemetry text: they hand the bytes of a string, or one byte, to the line in
  the order of the calls.
\<close>

definition uart_puts :: "string \<Rightarrow> state \<Rightarrow> state" where
  "uart_puts str s = s\<lparr>uart_tx := uart_tx s @ str\<rparr>"

text \<open>
  Modelled from the spec: \<^verbatim>\<open>uart_putch\<close> hands one byte to the line; its parameter is the
  low byte of the argument.
\<close>

definition uart_putch :: "char \<Rightarrow> state \<Rightarrow> state" where
  "uart_putch c s = s\<lparr>uart_tx := uart_tx s @ [c]\<rparr>"

definition sep :: "state \<Rightarrow> state" where
  "sep s = uart_puts '','' s"

text \<open>
  \<^verbatim>\<open>splitandprintvalue\<close>: the local array \<^verbatim>\<open>splittmp[6]\<close> is not initialised in the
  source; \<^verbatim>\<open>split\<close> writes all six positions before any is read (lemma
  \<open>split_decimal\<close> below). The byte sent is the low byte of \<^verbatim>\<open>splittmp[i] + 0x30\<close>.
\<close>

definition splitandprintvalue :: "uint16_t \<Rightarrow> state \<Rightarrow> state" where
  "splitandprintvalue v s =
     (let splittmp = split v (replicate 6 0) 6
      in foldl (\<lambda>s i. uart_putch (char_of (unat (splittmp ! i + 0x30))) s) s [0..<6])"

definition sendstate :: "state \<Rightarrow> state" where
  "sendstate s0 =
     (let s = (case om s0 of
                 OPMODE_OFF \<Rightarrow> uart_puts ''off'' s0
               | OPMODE_SET \<Rightarrow> uart_puts ''set'' s0
               | OPMODE_ON \<Rightarrow> uart_puts ''on'' s0
               | OPMODE_LVC \<Rightarrow> uart_puts ''lvc'' s0);
          s = sep s;
          s = sep (splitandprintvalue (volts s) s);
          s = sep (splitandprintvalue (amps s) s);
          s = sep (splitandprintvalue (watts s) s);
          s = sep (splitandprintvalue (targetamps s) s);
          s = splitandprintvalue (lvc s) s;
          s = sep s;
          s = splitandprintvalue (loadduty s) s
      in uart_puts [CHR 0x0D, CHR 0x0A] s)"

subsection \<open>checkbuttons\<close>

text \<open>\<^verbatim>\<open>dm++; if (dm == DISPMODE_END) dm = 0;\<close>\<close>

fun next_displaymode :: "displaymode \<Rightarrow> displaymode" where
  "next_displaymode VOLTS = AMPS"
| "next_displaymode AMPS = AMPHOURS"
| "next_displaymode AMPHOURS = WATTS"
| "next_displaymode WATTS = VOLTS"

definition checkbuttons :: "inputs \<Rightarrow> state \<Rightarrow> state" where
  "checkbuttons i s0 =
     (let portbits = PD_IDR i;
          s = (if portbits AND push_bit 3 1 = 0 then
                 (case om s0 of
                    OPMODE_OFF \<Rightarrow> s0\<lparr>om := OPMODE_ON\<rparr>
                  | OPMODE_ON \<Rightarrow> turnoffload (s0\<lparr>om := OPMODE_OFF\<rparr>)
                  | _ \<Rightarrow> s0)
               else s0)
      in if portbits AND push_bit 7 1 = 0 then
           (case om s of
              OPMODE_OFF \<Rightarrow> s\<lparr>dm := next_displaymode (dm s)\<rparr>
            | OPMODE_LVC \<Rightarrow> s\<lparr>om := OPMODE_OFF\<rparr>
            | _ \<Rightarrow> s)
         else s)"

subsection \<open>setdigit and updatedisplay\<close>

text \<open>
  A read-modify-write of an output register, \<^verbatim>\<open>*PB_ODR |= x\<close> or \<^verbatim>\<open>*PB_ODR &= ~x\<close>, is
  the update function of the record field applied to the operation on the byte.
  \<open>port_update\<close> does the same through the pointer \<^verbatim>\<open>digits[which].odr\<close>.
\<close>

definition port_update :: "port \<Rightarrow> (uint8_t \<Rightarrow> uint8_t) \<Rightarrow> state \<Rightarrow> state" where
  "port_update p f s = (case p of PORT_C \<Rightarrow> PC_ODR_update f s | PORT_D \<Rightarrow> PD_ODR_update f s)"

text \<open>
  \<^verbatim>\<open>setdigit\<close>: the two counting loops with empty bodies only spend time and are left
  out.
\<close>

definition setdigit :: "nat \<Rightarrow> character \<Rightarrow> bool \<Rightarrow> state \<Rightarrow> state" where
  "setdigit which c dot s0 =
     (let s = port_update (odr (digits ! which))
                (\<lambda>r. r AND NOT (push_bit (bitno (digits ! which)) 1)) s0;
          s = PB_ODR_update (\<lambda>r. r AND NOT (pbbits (cbits EIGHT))) s;
          s = PC_ODR_update (\<lambda>r. r AND NOT (pcbits (cbits EIGHT))) s;
          s = PD_ODR_update (\<lambda>r. r AND NOT (pdbits (cbits EIGHT))) s;
          s = PE_ODR_update (\<lambda>r. r AND NOT (pebits (cbits EIGHT))) s;
          s = PB_ODR_update (\<lambda>r. r OR pbbits (cbits c)) s;
          s = PC_ODR_update (\<lambda>r. r OR pcbits (cbits c)) s;
          s = PD_ODR_update (\<lambda>r. r OR pdbits (cbits c)) s;
          s = PE_ODR_update (\<lambda>r. r OR pebits (cbits c)) s;
          s = (if dot then PD_ODR_update (\<lambda>r. r OR 1) s
               else PD_ODR_update (\<lambda>r. r AND NOT 1) s)
      in port_update (odr (digits ! which))
           (\<lambda>r. r OR push_bit (bitno (digits ! which)) 1) s)"

text \<open>The cast \<^verbatim>\<open>(character) splittmp[pos]\<close>: the enumeration in its order.\<close>

definition character_of :: "uint16_t \<Rightarrow> character" where
  "character_of w =
     [ZERO, ONE, TWO, THREE, FOUR, FIVE, SIX, SEVEN, EIGHT, NINE,
      CHAR_A, CHAR_V, CHAR_LITTLEV, CHAR_SPACE] ! unat w"

text \<open>
  \<^verbatim>\<open>updatedisplay\<close>. Each of the two loops over \<^verbatim>\<open>pos\<close> carries the counter
  \<^verbatim>\<open>digit\<close>; the second one stops as soon as \<^verbatim>\<open>digit\<close> reaches 3, after which no
  later round would run either.
\<close>

definition updatedisplay :: "state \<Rightarrow> state" where
  "updatedisplay s0 =
     (let (unit, v) =
            (case dm s0 of
               VOLTS \<Rightarrow> (if highgain s0 then CHAR_LITTLEV else CHAR_V, volts s0)
             | AMPS \<Rightarrow> (CHAR_A, amps s0)
             | AMPHOURS \<Rightarrow> (CHAR_SPACE, 1)
             | WATTS \<Rightarrow> (CHAR_SPACE, 1));
          millis = v mod 1000;
          units = (v - millis) div 1000;
          splittmp = split units (replicate 3 0) 3;
          (digit, s) =
            foldl (\<lambda>(digit, s) pos.
                     if splittmp ! pos \<noteq> 0 \<or> pos = 2
                     then (digit + 1, setdigit digit (character_of (splittmp ! pos)) (pos = 2) s)
                     else (digit, s))
                  (0, s0) [0..<3];
          splittmp = split millis splittmp 3;
          (digit, s) =
            foldl (\<lambda>(digit, s) pos.
                     if digit < 3
                     then (digit + 1, setdigit digit (character_of (splittmp ! pos)) False s)
                     else (digit, s))
                  (digit, s) [0..<3]
      in setdigit digit unit False s)"

subsection \<open>main\<close>

text \<open>One round of the \<^verbatim>\<open>while (1)\<close> loop of \<^verbatim>\<open>main\<close>.\<close>

definition main_iteration :: "inputs \<Rightarrow> state \<Rightarrow> state" where
  "main_iteration i s = updatedisplay (checkbuttons i (sendstate (checkstate i s)))"

fun main_loop :: "inputs list \<Rightarrow> state \<Rightarrow> state" where
  "main_loop [] s = s"
| "main_loop (i # is) s = main_loop is (main_iteration i s)"

text \<open>
  The state when the loop is entered: the variables have their initialisers,
  \<^verbatim>\<open>initload\<close> has loaded the reload value 1024 into the compare register through
  \<^verbatim>\<open>setloadduty\<close>, and \<^verbatim>\<open>turnonled\<close> and \<^verbatim>\<open>turnonfan\<close> have set bits 1 and 2 of
  \<^verbatim>\<open>PB_ODR\<close>; the output registers are taken to be clear before that.
\<close>

definition initial_state :: state where
  "initial_state =
     \<lparr>om = OPMODE_OFF, dm = VOLTS, highgain = False, lvc = 2000, targetamps = 1000,
      volts = 0, amps = 0, watts = 0, loadduty = 800,
      voltsamples = replicate SAMPLES 0, shuntsamples = replicate SAMPLES 0,
      volthighgainsamples = replicate SAMPLES 0, sample = 0,
      TIM1_CCR1H = 4, TIM1_CCR1L = 0, duty_writes = [1024],
      PB_ODR = 6, PC_ODR = 0, PD_ODR = 0, PE_ODR = 0, uart_tx = []\<rparr>"

section \<open>The transition function of state.c\<close>

text \<open>
  Modelled from the spec: the header \<^verbatim>\<open>state.h\<close> with the types of \<^verbatim>\<open>state.c\<close> is not
  among the sources. The operating modes are the four of the specification, OFF, SET, ON
  and LVC, and the display modes its four, which are the enumerations of
  \<^verbatim>\<open>openebdmini.c\<close>.

  \<^verbatim>\<open>state.c\<close> defines its own copies of the variables and the function
  \<^verbatim>\<open>state_changeopmode\<close>, which nothing in \<^verbatim>\<open>openebdmini.c\<close> calls. The fields carry the
  prefix \<open>st_\<close> because the names are taken by the record above.
\<close>

record state_c =
  st_highgain :: bool
  st_lvc :: uint16_t
  st_targetamps :: uint16_t
  st_volts :: uint16_t
  st_amps :: uint16_t
  st_amphours :: uint16_t
  st_watts :: uint16_t
  st_loadduty :: uint16_t
  st_digitbeingset :: uint8_t
  st_time :: uint16_t
  st_dm :: displaymode
  st_om :: operationmode
  st_sequence :: uint8_t

definition state_c_initial :: state_c where
  "state_c_initial =
     \<lparr>st_highgain = False, st_lvc = 2000, st_targetamps = 1000, st_volts = 0, st_amps = 0,
      st_amphours = 0, st_watts = 0, st_loadduty = 800, st_digitbeingset = 0, st_time = 0,
      st_dm = VOLTS, st_om = OPMODE_OFF, st_sequence = 0\<rparr>"

definition state_changeopmode :: "operationmode \<Rightarrow> state_c \<Rightarrow> bool \<times> state_c" where
  "state_changeopmode newmode s =
     (let changeok =
            (case st_om s of
               OPMODE_ON \<Rightarrow> (if newmode = OPMODE_OFF then True else False)
             | OPMODE_OFF \<Rightarrow> (if newmode = OPMODE_ON then True else False)
             | OPMODE_LVC \<Rightarrow> (if newmode = OPMODE_OFF then True else False)
             | _ \<Rightarrow> False)
      in (changeok, if changeok then s\<lparr>st_om := newmode\<rparr> else s))"

section \<open>Notions of the specification\<close>

text \<open>
  The definitions of this section are not translations of code. They state, in
  arithmetic on natural numbers and in plain lists, what the specification says, so
  that the theorems below can compare the code with it.
\<close>

text \<open>
  A state is well formed when each window has its 12 slots and the cursor is inside
  them; the loop starts in such a state and keeps it. \<open>windows_10bit\<close> adds that every
  slot holds a 10-bit code, which is all that \<^verbatim>\<open>readadc\<close> can return.
\<close>

definition wf_state :: "state \<Rightarrow> bool" where
  "wf_state s =
     (length (voltsamples s) = SAMPLES \<and> length (shuntsamples s) = SAMPLES
      \<and> length (volthighgainsamples s) = SAMPLES \<and> unat (sample s) < SAMPLES)"

definition windows_10bit :: "state \<Rightarrow> bool" where
  "windows_10bit s =
     (wf_state s \<and> list_all (\<lambda>x. x \<le> 1023) (voltsamples s)
      \<and> list_all (\<lambda>x. x \<le> 1023) (shuntsamples s)
      \<and> list_all (\<lambda>x. x \<le> 1023) (volthighgainsamples s))"

text \<open>The arithmetic mean of a window, integer division truncating.\<close>

definition window_mean :: "uint16_t list \<Rightarrow> nat" where
  "window_mean w = sum_list (map unat w) div SAMPLES"

text \<open>
  The window that results from writing the readings \<open>xs\<close> one after the other at a
  cursor that starts at \<open>p\<close> and advances modulo 12.
\<close>

fun feed :: "uint16_t list \<Rightarrow> nat \<Rightarrow> uint16_t list \<Rightarrow> uint16_t list" where
  "feed [] p w = w"
| "feed (x # xs) p w = feed xs ((p + 1) mod SAMPLES) (w[p := x])"

text \<open>
  The zero-padded decimal rendering of \<open>n\<close> in \<open>d\<close> characters, most significant digit
  first, as digits and as text of width 6.
\<close>

fun decimal_digits :: "nat \<Rightarrow> nat \<Rightarrow> nat list" where
  "decimal_digits 0 n = []"
| "decimal_digits (Suc d) n = decimal_digits d (n div 10) @ [n mod 10]"

definition decimal6 :: "nat \<Rightarrow> string" where
  "decimal6 n = map (\<lambda>d. char_of (d + 48)) (decimal_digits 6 n)"

definition mode_name :: "operationmode \<Rightarrow> string" where
  "mode_name m =
     (case m of OPMODE_OFF \<Rightarrow> ''off'' | OPMODE_SET \<Rightarrow> ''set''
      | OPMODE_ON \<Rightarrow> ''on'' | OPMODE_LVC \<Rightarrow> ''lvc'')"

text \<open>The telemetry line of the specification for the values a state holds.\<close>

definition telemetry_line :: "state \<Rightarrow> string" where
  "telemetry_line s =
     mode_name (om s) @ '','' @ decimal6 (unat (volts s)) @ '','' @ decimal6 (unat (amps s))
     @ '','' @ decimal6 (unat (watts s)) @ '','' @ decimal6 (unat (targetamps s))
     @ '','' @ decimal6 (unat (lvc s)) @ '','' @ decimal6 (unat (loadduty s))
     @ [CHR 0x0D, CHR 0x0A]"

text \<open>
  The load is disabled: the duty variable holds the sentinel 1025, which is above the
  period of the PWM, and it is the value last loaded into the compare register.
\<close>

definition load_disabled :: "state \<Rightarrow> bool" where
  "load_disabled s =
     (loadduty s = 1025 \<and> reloadvalue < loadduty s \<and> TIM1_CCR1H s = 4 \<and> TIM1_CCR1L s = 1
      \<and> duty_writes s \<noteq> [] \<and> last (duty_writes s) = 1025)"

text \<open>The two buttons are active low: bit 3 of port D is start, bit 7 is mode.\<close>

definition start_pressed :: "inputs \<Rightarrow> bool" where
  "start_pressed i = (PD_IDR i AND push_bit 3 1 = 0)"

definition mode_pressed :: "inputs \<Rightarrow> bool" where
  "mode_pressed i = (PD_IDR i AND push_bit 7 1 = 0)"

text \<open>
  Over a run of iterations the regulator is held below its target: in every iteration
  the voltage computed is not under the cutoff, the current computed is under the
  target, and the start button is not pressed, so that the mode stays on.
\<close>

fun held_below :: "inputs list \<Rightarrow> state \<Rightarrow> bool" where
  "held_below [] s = True"
| "held_below (i # is) s =
     (\<not> volts (checkstate i s) < lvc (checkstate i s)
      \<and> amps (checkstate i s) < targetamps (checkstate i s)
      \<and> \<not> start_pressed i
      \<and> held_below is (main_iteration i s))"

text \<open>
  The transitions that the two tables of section 4.3 of the specification list, as
  pairs of the mode before and the mode after.
\<close>

definition spec_transition_listed :: "operationmode \<Rightarrow> operationmode \<Rightarrow> bool" where
  "spec_transition_listed cur new =
     ((cur, new) \<in> {(OPMODE_OFF, OPMODE_ON), (OPMODE_ON, OPMODE_OFF), (OPMODE_LVC, OPMODE_OFF),
                     (OPMODE_OFF, OPMODE_OFF), (OPMODE_ON, OPMODE_LVC)})"

text \<open>
  The high-gain voltage as it would be if the whole expression were evaluated in
  unsigned 16-bit arithmetic.
\<close>

definition highgainvolts_16bit :: "uint16_t \<Rightarrow> uint16_t" where
  "highgainvolts_16bit highmean = ((highmean * 65) div 10) - 20"

text \<open>The frame of the display driver: everything but the four output registers.\<close>

definition no_ports :: "state \<Rightarrow> state" where
  "no_ports s = s\<lparr>PB_ODR := 0, PC_ODR := 0, PD_ODR := 0, PE_ODR := 0\<rparr>"

definition display_frame :: "state \<Rightarrow> state \<Rightarrow> bool" where
  "display_frame s s' = (no_ports s' = no_ports s \<and> bit (PB_ODR s') 2 = bit (PB_ODR s) 2)"

text \<open>Inputs for the examples: a conversion that reads as a given 10-bit code.\<close>

definition adc_code :: "nat \<Rightarrow> adc_conversion" where
  "adc_code n = \<lparr>ADC_DRH = word_of_nat (n div 4), ADC_DRL = word_of_nat (n mod 4)\<rparr>"

definition readings :: "nat \<Rightarrow> nat \<Rightarrow> nat \<Rightarrow> uint8_t \<Rightarrow> inputs" where
  "readings shunt vin vinhigh buttons =
     \<lparr>adc_shunt = adc_code shunt, adc_vin = adc_code vin, adc_vin_highgain = adc_code vinhigh,
      PD_IDR = buttons\<rparr>"

section \<open>Frames: what each function leaves unchanged\<close>

lemma foldl_invariant:
  assumes "P a" and "\<And>a x. P a \<Longrightarrow> P (f a x)"
  shows "P (foldl f a xs)"
  using assms(1) by (induction xs arbitrary: a) (auto intro: assms(2))

lemma checkstate_sample_sel [simp]:
  "om (checkstate_sample i s) = om s"
  "dm (checkstate_sample i s) = dm s"
  "highgain (checkstate_sample i s) = highgain s"
  "lvc (checkstate_sample i s) = lvc s"
  "targetamps (checkstate_sample i s) = targetamps s"
  "volts (checkstate_sample i s) = volts s"
  "amps (checkstate_sample i s) = amps s"
  "watts (checkstate_sample i s) = watts s"
  "loadduty (checkstate_sample i s) = loadduty s"
  "TIM1_CCR1H (checkstate_sample i s) = TIM1_CCR1H s"
  "TIM1_CCR1L (checkstate_sample i s) = TIM1_CCR1L s"
  "duty_writes (checkstate_sample i s) = duty_writes s"
  "PB_ODR (checkstate_sample i s) = PB_ODR s"
  "PC_ODR (checkstate_sample i s) = PC_ODR s"
  "PD_ODR (checkstate_sample i s) = PD_ODR s"
  "PE_ODR (checkstate_sample i s) = PE_ODR s"
  "uart_tx (checkstate_sample i s) = uart_tx s"
  "fan_on (checkstate_sample i s) = fan_on s"
  by (simp_all add: checkstate_sample_def fan_on_def)

lemma checkstate_measure_sel [simp]:
  "om (checkstate_measure s) = om s"
  "dm (checkstate_measure s) = dm s"
  "lvc (checkstate_measure s) = lvc s"
  "targetamps (checkstate_measure s) = targetamps s"
  "loadduty (checkstate_measure s) = loadduty s"
  "voltsamples (checkstate_measure s) = voltsamples s"
  "shuntsamples (checkstate_measure s) = shuntsamples s"
  "volthighgainsamples (checkstate_measure s) = volthighgainsamples s"
  "sample (checkstate_measure s) = sample s"
  "TIM1_CCR1H (checkstate_measure s) = TIM1_CCR1H s"
  "TIM1_CCR1L (checkstate_measure s) = TIM1_CCR1L s"
  "duty_writes (checkstate_measure s) = duty_writes s"
  "PB_ODR (checkstate_measure s) = PB_ODR s"
  "PC_ODR (checkstate_measure s) = PC_ODR s"
  "PD_ODR (checkstate_measure s) = PD_ODR s"
  "PE_ODR (checkstate_measure s) = PE_ODR s"
  "uart_tx (checkstate_measure s) = uart_tx s"
  "fan_on (checkstate_measure s) = fan_on s"
  by (simp_all add: checkstate_measure_def Let_def split_beta fan_on_def)

lemma checkstate_fan_sel [simp]:
  "om (checkstate_fan s) = om s"
  "dm (checkstate_fan s) = dm s"
  "highgain (checkstate_fan s) = highgain s"
  "lvc (checkstate_fan s) = lvc s"
  "targetamps (checkstate_fan s) = targetamps s"
  "volts (checkstate_fan s) = volts s"
  "amps (checkstate_fan s) = amps s"
  "watts (checkstate_fan s) = watts s"
  "loadduty (checkstate_fan s) = loadduty s"
  "voltsamples (checkstate_fan s) = voltsamples s"
  "shuntsamples (checkstate_fan s) = shuntsamples s"
  "volthighgainsamples (checkstate_fan s) = volthighgainsamples s"
  "sample (checkstate_fan s) = sample s"
  "TIM1_CCR1H (checkstate_fan s) = TIM1_CCR1H s"
  "TIM1_CCR1L (checkstate_fan s) = TIM1_CCR1L s"
  "duty_writes (checkstate_fan s) = duty_writes s"
  "PC_ODR (checkstate_fan s) = PC_ODR s"
  "PD_ODR (checkstate_fan s) = PD_ODR s"
  "PE_ODR (checkstate_fan s) = PE_ODR s"
  "uart_tx (checkstate_fan s) = uart_tx s"
  by (simp_all add: checkstate_fan_def turnonfan_def turnofffan_def)

lemma checkstate_switch_sel [simp]:
  "dm (checkstate_switch s) = dm s"
  "highgain (checkstate_switch s) = highgain s"
  "lvc (checkstate_switch s) = lvc s"
  "targetamps (checkstate_switch s) = targetamps s"
  "volts (checkstate_switch s) = volts s"
  "amps (checkstate_switch s) = amps s"
  "watts (checkstate_switch s) = watts s"
  "voltsamples (checkstate_switch s) = voltsamples s"
  "shuntsamples (checkstate_switch s) = shuntsamples s"
  "volthighgainsamples (checkstate_switch s) = volthighgainsamples s"
  "sample (checkstate_switch s) = sample s"
  "PB_ODR (checkstate_switch s) = PB_ODR s"
  "PC_ODR (checkstate_switch s) = PC_ODR s"
  "PD_ODR (checkstate_switch s) = PD_ODR s"
  "PE_ODR (checkstate_switch s) = PE_ODR s"
  "uart_tx (checkstate_switch s) = uart_tx s"
  "fan_on (checkstate_switch s) = fan_on s"
  by (simp_all add: checkstate_switch_def turnoffload_def setloadduty_def fan_on_def
      split: operationmode.splits)

lemma checkbuttons_sel [simp]:
  "highgain (checkbuttons i s) = highgain s"
  "lvc (checkbuttons i s) = lvc s"
  "targetamps (checkbuttons i s) = targetamps s"
  "volts (checkbuttons i s) = volts s"
  "amps (checkbuttons i s) = amps s"
  "watts (checkbuttons i s) = watts s"
  "voltsamples (checkbuttons i s) = voltsamples s"
  "shuntsamples (checkbuttons i s) = shuntsamples s"
  "volthighgainsamples (checkbuttons i s) = volthighgainsamples s"
  "sample (checkbuttons i s) = sample s"
  "PB_ODR (checkbuttons i s) = PB_ODR s"
  "PC_ODR (checkbuttons i s) = PC_ODR s"
  "PD_ODR (checkbuttons i s) = PD_ODR s"
  "PE_ODR (checkbuttons i s) = PE_ODR s"
  "uart_tx (checkbuttons i s) = uart_tx s"
  "fan_on (checkbuttons i s) = fan_on s"
  by (simp_all add: checkbuttons_def Let_def turnoffload_def setloadduty_def fan_on_def
      split: operationmode.splits)

lemma checkstate_sel [simp]:
  "dm (checkstate i s) = dm s" "lvc (checkstate i s) = lvc s"
  "targetamps (checkstate i s) = targetamps s" "uart_tx (checkstate i s) = uart_tx s"
  "PC_ODR (checkstate i s) = PC_ODR s" "PD_ODR (checkstate i s) = PD_ODR s"
  "PE_ODR (checkstate i s) = PE_ODR s"
  by (simp_all add: checkstate_def)

lemma checkstate_measured:
  "volts (checkstate i s) = volts (checkstate_measure (checkstate_sample i s))"
  "amps (checkstate i s) = amps (checkstate_measure (checkstate_sample i s))"
  "watts (checkstate i s) = watts (checkstate_measure (checkstate_sample i s))"
  "highgain (checkstate i s) = highgain (checkstate_measure (checkstate_sample i s))"
  by (simp_all add: checkstate_def)

lemma checkstate_windows:
  "shuntsamples (checkstate i s) = (shuntsamples s)[unat (sample s) := readadc (adc_shunt i)]"
  "voltsamples (checkstate i s) = (voltsamples s)[unat (sample s) := readadc (adc_vin i)]"
  "volthighgainsamples (checkstate i s) =
     (volthighgainsamples s)[unat (sample s) := readadc (adc_vin_highgain i)]"
  "sample (checkstate i s) = word_of_nat ((unat (sample s) + 1) mod SAMPLES)"
  by (simp_all add: checkstate_def checkstate_sample_def)

lemma checkstate_measure_values:
  "amps (checkstate_measure s) = amps_of (smoothed (shuntsamples s))"
  "highgain (checkstate_measure s) =
     fst (select_volts (lowgainvolts_of (smoothed (voltsamples s)))
                       (highgainvolts_of (smoothed (volthighgainsamples s))))"
  "volts (checkstate_measure s) =
     snd (select_volts (lowgainvolts_of (smoothed (voltsamples s)))
                       (highgainvolts_of (smoothed (volthighgainsamples s))))"
  "watts (checkstate_measure s) = watts_of (amps (checkstate_measure s)) (volts (checkstate_measure s))"
  by (simp_all add: checkstate_measure_def Let_def split_beta)

text \<open>The switch of \<^verbatim>\<open>checkstate\<close>, case by case.\<close>

lemma checkstate_switch_other: "om s \<noteq> OPMODE_ON \<Longrightarrow> checkstate_switch s = s"
  by (simp add: checkstate_switch_def split: operationmode.splits)

lemma checkstate_switch_cutoff:
  "om s = OPMODE_ON \<Longrightarrow> volts s < lvc s \<Longrightarrow>
   checkstate_switch s = turnoffload (s\<lparr>om := OPMODE_LVC\<rparr>)"
  by (simp add: checkstate_switch_def)

lemma checkstate_switch_regulate:
  assumes "om s = OPMODE_ON" and "\<not> volts s < lvc s"
  shows "om (checkstate_switch s) = OPMODE_ON"
    and "loadduty (checkstate_switch s) =
           (if amps s < targetamps s \<and> 300 < loadduty s then loadduty s - 1
            else if targetamps s < amps s \<and> loadduty s < 1000 then loadduty s + 1
            else loadduty s)"
  using assms by (auto simp: checkstate_switch_def setloadduty_def)

lemma turnoffload_disabled: "load_disabled (turnoffload s)"
  by (simp add: load_disabled_def turnoffload_def setloadduty_def reloadvalue_def)

lemma turnoffload_sel [simp]:
  "om (turnoffload s) = om s" "loadduty (turnoffload s) = 1025"
  "duty_writes (turnoffload s) = duty_writes s @ [1025]"
  "TIM1_CCR1H (turnoffload s) = 4" "TIM1_CCR1L (turnoffload s) = 1"
  by (simp_all add: turnoffload_def setloadduty_def)

lemma load_disabled_cong:
  "loadduty s' = loadduty s \<Longrightarrow> TIM1_CCR1H s' = TIM1_CCR1H s \<Longrightarrow> TIM1_CCR1L s' = TIM1_CCR1L s \<Longrightarrow>
   duty_writes s' = duty_writes s \<Longrightarrow> load_disabled s' = load_disabled s"
  by (simp add: load_disabled_def)

text \<open>\<^verbatim>\<open>checkbuttons\<close>, by the buttons pressed and the mode.\<close>

lemma checkbuttons_om:
  "om (checkbuttons i s) =
     (let m = (if start_pressed i then
                 (case om s of OPMODE_OFF \<Rightarrow> OPMODE_ON | OPMODE_ON \<Rightarrow> OPMODE_OFF | m \<Rightarrow> m)
               else om s)
      in if mode_pressed i \<and> m = OPMODE_LVC then OPMODE_OFF else m)"
  by (simp add: checkbuttons_def Let_def start_pressed_def mode_pressed_def
      split: operationmode.splits)

lemma checkbuttons_duty:
  "start_pressed i \<and> om s = OPMODE_ON \<Longrightarrow>
     loadduty (checkbuttons i s) = 1025 \<and> duty_writes (checkbuttons i s) = duty_writes s @ [1025]
     \<and> TIM1_CCR1H (checkbuttons i s) = 4 \<and> TIM1_CCR1L (checkbuttons i s) = 1"
  "\<not> (start_pressed i \<and> om s = OPMODE_ON) \<Longrightarrow>
     loadduty (checkbuttons i s) = loadduty s \<and> duty_writes (checkbuttons i s) = duty_writes s
     \<and> TIM1_CCR1H (checkbuttons i s) = TIM1_CCR1H s \<and> TIM1_CCR1L (checkbuttons i s) = TIM1_CCR1L s"
  by (auto simp: checkbuttons_def Let_def start_pressed_def mode_pressed_def
      split: operationmode.splits)

text \<open>The display driver writes the four output registers only, and not the fan bit.\<close>

lemma display_frame_refl: "display_frame s s"
  by (simp add: display_frame_def)

lemma pbbits_bit2: "\<not> bit (pbbits (cbits c)) 2"
  by (cases c) simp_all

lemma port_update_PB: "PB_ODR (port_update p f s) = PB_ODR s"
  by (cases p) (simp_all add: port_update_def)

lemma setdigit_no_ports: "no_ports (setdigit which c dot s) = no_ports s"
  by (simp add: setdigit_def Let_def no_ports_def port_update_def split: port.splits)

lemma setdigit_PB: "bit (PB_ODR (setdigit which c dot s)) 2 = bit (PB_ODR s) 2"
  by (simp add: setdigit_def Let_def port_update_PB bit_simps pbbits_bit2)

lemma setdigit_frame: "display_frame s s' \<Longrightarrow> display_frame s (setdigit which c dot s')"
  by (simp add: display_frame_def setdigit_no_ports setdigit_PB)

lemma updatedisplay_frame: "display_frame s (updatedisplay s)"
proof -
  have loop1: "\<And>tmp a. (case a of (d, s') \<Rightarrow> display_frame s s') \<Longrightarrow>
      (case foldl (\<lambda>(digit, s) pos.
                     if tmp ! pos \<noteq> 0 \<or> pos = 2
                     then (digit + 1, setdigit digit (character_of (tmp ! pos)) (pos = 2) s)
                     else (digit, s)) a [0..<3] of (d, s') \<Rightarrow> display_frame s s')"
    by (rule foldl_invariant) (auto simp: setdigit_frame split: if_splits)
  have loop2: "\<And>tmp a. (case a of (d, s') \<Rightarrow> display_frame s s') \<Longrightarrow>
      (case foldl (\<lambda>(digit, s) pos.
                     if digit < 3
                     then (digit + 1, setdigit digit (character_of (tmp ! pos)) False s)
                     else (digit, s)) a [0..<3] of (d, s') \<Rightarrow> display_frame s s')"
    by (rule foldl_invariant) (auto simp: setdigit_frame split: if_splits)
  show ?thesis
    unfolding updatedisplay_def Let_def
    apply (simp only: split_beta)
    apply (rule setdigit_frame)
    using loop2 [OF loop1 [of "(0, s)"]]
    apply (simp add: split_beta display_frame_refl)
    done
qed

lemma updatedisplay_no_ports: "no_ports (updatedisplay s) = no_ports s"
  using updatedisplay_frame [of s] by (simp add: display_frame_def)

lemma updatedisplay_sel [simp]:
  "om (updatedisplay s) = om s"
  "dm (updatedisplay s) = dm s"
  "highgain (updatedisplay s) = highgain s"
  "lvc (updatedisplay s) = lvc s"
  "targetamps (updatedisplay s) = targetamps s"
  "volts (updatedisplay s) = volts s"
  "amps (updatedisplay s) = amps s"
  "watts (updatedisplay s) = watts s"
  "loadduty (updatedisplay s) = loadduty s"
  "voltsamples (updatedisplay s) = voltsamples s"
  "shuntsamples (updatedisplay s) = shuntsamples s"
  "volthighgainsamples (updatedisplay s) = volthighgainsamples s"
  "sample (updatedisplay s) = sample s"
  "TIM1_CCR1H (updatedisplay s) = TIM1_CCR1H s"
  "TIM1_CCR1L (updatedisplay s) = TIM1_CCR1L s"
  "duty_writes (updatedisplay s) = duty_writes s"
  "uart_tx (updatedisplay s) = uart_tx s"
  "fan_on (updatedisplay s) = fan_on s"
proof -
  have "om (no_ports (updatedisplay s)) = om (no_ports s)" by (simp only: updatedisplay_no_ports)
  then show "om (updatedisplay s) = om s" by (simp add: no_ports_def)
  have "dm (no_ports (updatedisplay s)) = dm (no_ports s)" by (simp only: updatedisplay_no_ports)
  then show "dm (updatedisplay s) = dm s" by (simp add: no_ports_def)
  have "highgain (no_ports (updatedisplay s)) = highgain (no_ports s)" by (simp only: updatedisplay_no_ports)
  then show "highgain (updatedisplay s) = highgain s" by (simp add: no_ports_def)
  have "lvc (no_ports (updatedisplay s)) = lvc (no_ports s)" by (simp only: updatedisplay_no_ports)
  then show "lvc (updatedisplay s) = lvc s" by (simp add: no_ports_def)
  have "targetamps (no_ports (updatedisplay s)) = targetamps (no_ports s)" by (simp only: updatedisplay_no_ports)
  then show "targetamps (updatedisplay s) = targetamps s" by (simp add: no_ports_def)
  have "volts (no_ports (updatedisplay s)) = volts (no_ports s)" by (simp only: updatedisplay_no_ports)
  then show "volts (updatedisplay s) = volts s" by (simp add: no_ports_def)
  have "amps (no_ports (updatedisplay s)) = amps (no_ports s)" by (simp only: updatedisplay_no_ports)
  then show "amps (updatedisplay s) = amps s" by (simp add: no_ports_def)
  have "watts (no_ports (updatedisplay s)) = watts (no_ports s)" by (simp only: updatedisplay_no_ports)
  then show "watts (updatedisplay s) = watts s" by (simp add: no_ports_def)
  have "loadduty (no_ports (updatedisplay s)) = loadduty (no_ports s)" by (simp only: updatedisplay_no_ports)
  then show "loadduty (updatedisplay s) = loadduty s" by (simp add: no_ports_def)
  have "voltsamples (no_ports (updatedisplay s)) = voltsamples (no_ports s)" by (simp only: updatedisplay_no_ports)
  then show "voltsamples (updatedisplay s) = voltsamples s" by (simp add: no_ports_def)
  have "shuntsamples (no_ports (updatedisplay s)) = shuntsamples (no_ports s)" by (simp only: updatedisplay_no_ports)
  then show "shuntsamples (updatedisplay s) = shuntsamples s" by (simp add: no_ports_def)
  have "volthighgainsamples (no_ports (updatedisplay s)) = volthighgainsamples (no_ports s)" by (simp only: updatedisplay_no_ports)
  then show "volthighgainsamples (updatedisplay s) = volthighgainsamples s" by (simp add: no_ports_def)
  have "sample (no_ports (updatedisplay s)) = sample (no_ports s)" by (simp only: updatedisplay_no_ports)
  then show "sample (updatedisplay s) = sample s" by (simp add: no_ports_def)
  have "TIM1_CCR1H (no_ports (updatedisplay s)) = TIM1_CCR1H (no_ports s)" by (simp only: updatedisplay_no_ports)
  then show "TIM1_CCR1H (updatedisplay s) = TIM1_CCR1H s" by (simp add: no_ports_def)
  have "TIM1_CCR1L (no_ports (updatedisplay s)) = TIM1_CCR1L (no_ports s)" by (simp only: updatedisplay_no_ports)
  then show "TIM1_CCR1L (updatedisplay s) = TIM1_CCR1L s" by (simp add: no_ports_def)
  have "duty_writes (no_ports (updatedisplay s)) = duty_writes (no_ports s)" by (simp only: updatedisplay_no_ports)
  then show "duty_writes (updatedisplay s) = duty_writes s" by (simp add: no_ports_def)
  have "uart_tx (no_ports (updatedisplay s)) = uart_tx (no_ports s)" by (simp only: updatedisplay_no_ports)
  then show "uart_tx (updatedisplay s) = uart_tx s" by (simp add: no_ports_def)
  show "fan_on (updatedisplay s) = fan_on s"
    using updatedisplay_frame [of s] by (simp add: display_frame_def fan_on_def)
qed

section \<open>split and the telemetry line\<close>

lemma length_decimal_digits: "length (decimal_digits d n) = d"
  by (induction d arbitrary: n) simp_all

lemma decimal_digits_lt10: "x \<in> set (decimal_digits d n) \<Longrightarrow> x < 10"
  by (induction d arbitrary: n) auto

text \<open>The digits are those of \<open>n\<close>: read in base 10 they give \<open>n\<close> back, up to the width.\<close>

lemma decimal_digits_value: "foldl (\<lambda>acc x. 10 * acc + x) 0 (decimal_digits d n) = n mod 10 ^ d"
proof (induction d arbitrary: n)
  case 0 then show ?case by simp
next
  case (Suc d)
  have "10 * (n div 10 mod 10 ^ d) + n mod 10 = n mod (10 * 10 ^ d)"
    by (simp add: mod_mult2_eq)
  with Suc show ?case by simp
qed

lemma decimal_digits_zero: "decimal_digits d 0 = replicate d 0"
  by (induction d) (simp_all add: replicate_append_same)

lemma split_fill_eq: "d \<le> length buffer \<Longrightarrow> split_fill buffer d = replicate d 0 @ drop d buffer"
proof (induction d arbitrary: buffer)
  case 0 then show ?case by simp
next
  case (Suc d)
  then have "split_fill (buffer[d := 0]) d = replicate d 0 @ drop d (buffer[d := 0])" by simp
  also have "drop d (buffer[d := 0]) = 0 # drop (Suc d) buffer"
    using Suc.prems by (simp add: upd_conv_take_nth_drop)
  finally show ?case by (simp add: replicate_append_same)
qed

lemma unat_strip: "unat ((v - v mod 10) div 10 :: uint16_t) = unat v div 10"
proof -
  have "v mod 10 \<le> v" by (simp add: word_le_nat_alt unat_mod)
  then have "unat (v - v mod 10) = unat v - unat v mod 10"
    by (simp add: unat_sub unat_mod)
  then show ?thesis by (simp add: unat_div minus_mod_eq_mult_div)
qed

lemma strip_zero: "v - v mod 10 = 0 \<Longrightarrow> unat (v :: uint16_t) div 10 = 0"
  using unat_strip [of v] by simp

lemma split_decimal:
  "d \<le> length buffer \<Longrightarrow>
   split v buffer d = map word_of_nat (decimal_digits d (unat v)) @ drop d buffer"
proof (induction d arbitrary: v buffer)
  case 0 then show ?case by (simp add: split_def)
next
  case (Suc d)
  let ?tmp = "v mod 10"
  let ?b = "buffer[d := ?tmp]"
  have dropb: "drop d ?b = ?tmp # drop (Suc d) buffer"
    using Suc.prems by (simp add: upd_conv_take_nth_drop)
  have tmp: "?tmp = word_of_nat (unat v mod 10)"
    by (simp add: word_arith_nat_mod)
  show ?case
  proof (cases "v - ?tmp = 0")
    case True
    then have "split v buffer (Suc d) = split_fill ?b d" by (simp add: split_def Let_def)
    also have "\<dots> = replicate d 0 @ drop d ?b" using Suc.prems by (simp add: split_fill_eq)
    finally show ?thesis using True dropb tmp strip_zero [OF True]
      by (simp add: decimal_digits_zero)
  next
    case False
    then have "split v buffer (Suc d) = split ((v - ?tmp) div 10) ?b d"
      by (simp add: split_def Let_def)
    also have "\<dots> = map word_of_nat (decimal_digits d (unat ((v - ?tmp) div 10))) @ drop d ?b"
      using Suc.prems by (intro Suc.IH) simp
    finally have "split v buffer (Suc d) =
        map word_of_nat (decimal_digits d (unat v div 10)) @ ?tmp # drop (Suc d) buffer"
      using dropb by (simp add: unat_strip)
    then show ?thesis using tmp by simp
  qed
qed

lemma foldl_putch:
  "n \<le> length tmp \<Longrightarrow>
   foldl (\<lambda>s i. uart_putch (f (tmp ! i)) s) s [0..<n] = s\<lparr>uart_tx := uart_tx s @ map f (take n tmp)\<rparr>"
  by (induction n) (simp_all add: take_Suc_conv_app_nth uart_putch_def)

lemma digit_char: "d < 10 \<Longrightarrow> unat ((word_of_nat d :: uint16_t) + 0x30) = d + 48"
  by (simp add: unat_word_ariths unat_of_nat)

lemma splitandprintvalue_eq:
  "splitandprintvalue v s = s\<lparr>uart_tx := uart_tx s @ decimal6 (unat v)\<rparr>"
proof -
  have "split v (replicate 6 0) 6 = map word_of_nat (decimal_digits 6 (unat v))"
    by (simp add: split_decimal)
  moreover have "map (\<lambda>w. char_of (unat (w + 0x30)))
        (map (word_of_nat :: nat \<Rightarrow> uint16_t) (decimal_digits 6 (unat v))) = decimal6 (unat v)"
    unfolding decimal6_def map_map
    by (rule map_cong) (auto dest!: decimal_digits_lt10 simp: digit_char)
  ultimately show ?thesis
    by (simp add: splitandprintvalue_def length_decimal_digits
        foldl_putch [where f = "\<lambda>w. char_of (unat (w + 0x30))"])
qed

lemma sendstate_eq: "sendstate s = s\<lparr>uart_tx := uart_tx s @ telemetry_line s\<rparr>"
  by (cases "om s")
     (simp_all add: sendstate_def Let_def splitandprintvalue_eq uart_puts_def sep_def
        telemetry_line_def mode_name_def)

lemma sendstate_sel [simp]:
  "om (sendstate s) = om s"
  "dm (sendstate s) = dm s"
  "highgain (sendstate s) = highgain s"
  "lvc (sendstate s) = lvc s"
  "targetamps (sendstate s) = targetamps s"
  "volts (sendstate s) = volts s"
  "amps (sendstate s) = amps s"
  "watts (sendstate s) = watts s"
  "loadduty (sendstate s) = loadduty s"
  "voltsamples (sendstate s) = voltsamples s"
  "shuntsamples (sendstate s) = shuntsamples s"
  "volthighgainsamples (sendstate s) = volthighgainsamples s"
  "sample (sendstate s) = sample s"
  "TIM1_CCR1H (sendstate s) = TIM1_CCR1H s"
  "TIM1_CCR1L (sendstate s) = TIM1_CCR1L s"
  "duty_writes (sendstate s) = duty_writes s"
  "PB_ODR (sendstate s) = PB_ODR s"
  "PC_ODR (sendstate s) = PC_ODR s"
  "PD_ODR (sendstate s) = PD_ODR s"
  "PE_ODR (sendstate s) = PE_ODR s"
  "fan_on (sendstate s) = fan_on s"
  by (simp_all add: sendstate_eq fan_on_def)

section \<open>One iteration of the loop\<close>

lemma main_iteration_measured [simp]:
  "volts (main_iteration i s) = volts (checkstate i s)"
  "amps (main_iteration i s) = amps (checkstate i s)"
  "watts (main_iteration i s) = watts (checkstate i s)"
  "highgain (main_iteration i s) = highgain (checkstate i s)"
  "shuntsamples (main_iteration i s) = shuntsamples (checkstate i s)"
  "voltsamples (main_iteration i s) = voltsamples (checkstate i s)"
  "volthighgainsamples (main_iteration i s) = volthighgainsamples (checkstate i s)"
  "sample (main_iteration i s) = sample (checkstate i s)"
  "lvc (main_iteration i s) = lvc s" "targetamps (main_iteration i s) = targetamps s"
  "fan_on (main_iteration i s) = fan_on (checkstate i s)"
  by (simp_all add: main_iteration_def)

lemma main_iteration_control:
  "om (main_iteration i s) = om (checkbuttons i (checkstate i s))"
  "loadduty (main_iteration i s) = loadduty (checkbuttons i (checkstate i s))"
  "duty_writes (main_iteration i s) = duty_writes (checkbuttons i (checkstate i s))"
  "TIM1_CCR1H (main_iteration i s) = TIM1_CCR1H (checkbuttons i (checkstate i s))"
  "TIM1_CCR1L (main_iteration i s) = TIM1_CCR1L (checkbuttons i (checkstate i s))"
proof -
  have c: "\<And>s'. checkbuttons i (sendstate s') = sendstate (checkbuttons i s')\<lparr>uart_tx := uart_tx s' @ telemetry_line s'\<rparr>"
    by (simp add: sendstate_eq checkbuttons_def Let_def turnoffload_def setloadduty_def
        split: operationmode.splits)
  show "om (main_iteration i s) = om (checkbuttons i (checkstate i s))"
    "loadduty (main_iteration i s) = loadduty (checkbuttons i (checkstate i s))"
    "duty_writes (main_iteration i s) = duty_writes (checkbuttons i (checkstate i s))"
    "TIM1_CCR1H (main_iteration i s) = TIM1_CCR1H (checkbuttons i (checkstate i s))"
    "TIM1_CCR1L (main_iteration i s) = TIM1_CCR1L (checkbuttons i (checkstate i s))"
    by (simp_all add: main_iteration_def c)
qed


lemma checkstate_cutoff:
  assumes "om s = OPMODE_ON" and "volts (checkstate i s) < lvc s"
  shows "checkstate i s =
     turnoffload ((checkstate_fan (checkstate_measure (checkstate_sample i s)))\<lparr>om := OPMODE_LVC\<rparr>)"
  using assms by (simp add: checkstate_def checkstate_measured checkstate_switch_cutoff)

lemma checkstate_on_cases:
  assumes "om s = OPMODE_ON"
  shows "(volts (checkstate i s) < lvc s \<and> om (checkstate i s) = OPMODE_LVC \<and> load_disabled (checkstate i s))
       \<or> (\<not> volts (checkstate i s) < lvc s \<and> om (checkstate i s) = OPMODE_ON)"
proof (cases "volts (checkstate i s) < lvc s")
  case True
  have "om (checkstate i s) = OPMODE_LVC \<and> load_disabled (checkstate i s)"
    unfolding checkstate_cutoff [OF assms True] by (simp add: turnoffload_disabled)
  with True show ?thesis by simp
next
  case False
  then show ?thesis using assms
    by (simp add: checkstate_def checkstate_measured checkstate_switch_regulate)
qed

section \<open>The measurements as arithmetic on natural numbers\<close>

lemma foldl_window:
  "n \<le> length w \<Longrightarrow>
   foldl (\<lambda>acc i. acc + ucast (w ! i)) a [0..<n]
     = a + (word_of_nat (sum_list (map unat (take n w))) :: uint32_t)"
proof (induction n)
  case 0 then show ?case by simp
next
  case (Suc n)
  then show ?case by (simp add: take_Suc_conv_app_nth)
qed

lemma sum_list_unat_bound: "sum_list (map unat (w :: uint16_t list)) \<le> length w * 65535"
proof (induction w)
  case Nil then show ?case by simp
next
  case (Cons x w)
  have "unat x < 2 ^ 16" using unsigned_less [of x] by simp
  with Cons show ?case by simp
qed

lemma unat_window_sum:
  assumes "length w = SAMPLES"
  shows "unat (window_sum w) = sum_list (map unat w)"
proof -
  have "sum_list (map unat w) \<le> 12 * 65535"
    using sum_list_unat_bound [of w] assms by (simp add: SAMPLES_def)
  then have "sum_list (map unat w) < 2 ^ 32" by simp
  moreover have "window_sum w = word_of_nat (sum_list (map unat w))"
    using assms foldl_window [of SAMPLES w 0] by (simp add: window_sum_def)
  ultimately show ?thesis by (simp add: unat_of_nat take_bit_nat_eq_self)
qed

lemma unat_smoothed: "length w = SAMPLES \<Longrightarrow> unat (smoothed w) = window_mean w"
  by (simp add: smoothed_def window_mean_def unat_div unat_window_sum unat_of_nat SAMPLES_def)

lemma window_mean_bound: "length w = SAMPLES \<Longrightarrow> window_mean w \<le> 65535"
  using sum_list_unat_bound [of w] by (simp add: window_mean_def SAMPLES_def)

lemma sum_list_10bit:
  "list_all (\<lambda>x. x \<le> 1023) (w :: uint16_t list) \<Longrightarrow> sum_list (map unat w) \<le> length w * 1023"
proof (induction w)
  case Nil then show ?case by simp
next
  case (Cons x w)
  then have "unat x \<le> 1023" by (simp add: word_le_nat_alt)
  with Cons show ?case by simp
qed

lemma window_mean_10bit:
  "length w = SAMPLES \<Longrightarrow> list_all (\<lambda>x. x \<le> 1023) w \<Longrightarrow> window_mean w \<le> 1023"
  using sum_list_10bit [of w] by (simp add: window_mean_def SAMPLES_def)

lemma unat_narrow: "unat (ucast (x :: uint32_t) :: uint16_t) = unat x mod 65536"
  by (simp add: unsigned_ucast_eq take_bit_eq_mod)

lemma unat_widen: "unat (ucast (x :: uint16_t) :: uint32_t) = unat x"
proof -
  have "unat x < 2 ^ 16" using unsigned_less [of x] by simp
  then have "unat x < 2 ^ 32" by simp
  then show ?thesis by (simp add: unsigned_ucast_eq take_bit_nat_eq_self)
qed

lemma unat_amps_of:
  "unat m \<le> 65535 \<Longrightarrow> unat (amps_of m) = (unat m * 68 div 20) mod 65536"
proof -
  assume a: "unat m \<le> 65535"
  then have "unat m * 68 < 2 ^ 32" by simp
  then have "unat (m * 68) = unat m * 68"
    by (simp add: unat_word_ariths take_bit_nat_eq_self unat_mult_lem [THEN iffD1])
  then show ?thesis
    by (simp add: amps_of_def MICROVOLTSPERSTEP_SHUNT_def unat_narrow unat_div)
qed

lemma unat_lowgainvolts_of:
  "unat m \<le> 65535 \<Longrightarrow> unat (lowgainvolts_of m) = (unat m * 20) mod 65536"
proof -
  assume a: "unat m \<le> 65535"
  then have "unat m * 20 < 2 ^ 32" by simp
  then have "unat (m * 20) = unat m * 20"
    by (simp add: unat_mult_lem [THEN iffD1])
  then show ?thesis
    by (simp add: lowgainvolts_of_def MILLIVOLTSPERSTEP_def unat_narrow)
qed

lemma wrap_sub20:
  "(if 20 \<le> (q::nat) then q - 20 else q + 4294967296 - 20) mod 65536 = (q + 65516) mod 65536"
proof (cases "20 \<le> q")
  case True
  then have "q + 65516 = (q - 20) + 65536" by simp
  then have "(q + 65516) mod 65536 = (q - 20) mod 65536" by (simp only: mod_add_self2)
  with True show ?thesis by simp
next
  case False
  then have "q + 4294967296 - 20 = (q + 65516) + 65536 * 65535" by simp
  then have "(q + 4294967296 - 20) mod 65536 = (q + 65516) mod 65536"
    by (simp only: mod_mult_self2)
  with False show ?thesis by simp
qed

lemma unat_highgainvolts_of:
  assumes "unat m \<le> 65535"
  shows "unat (highgainvolts_of m) = (unat m * 65 div 10 + 65516) mod 65536"
proof -
  from assms have "unat m * 65 < 2 ^ 32" by simp
  then have q: "unat (m * 65 div 10) = unat m * 65 div 10"
    by (simp add: unat_div unat_mult_lem [THEN iffD1])
  have "unat (m * 65 div 10 - 20) =
      (if 20 \<le> unat m * 65 div 10 then unat m * 65 div 10 - 20
       else unat m * 65 div 10 + 4294967296 - 20)"
    using q by (simp add: unat_sub_if_size word_size)
  then have "unat (m * 65 div 10 - 20) mod 65536 = (unat m * 65 div 10 + 65516) mod 65536"
    by (simp only: wrap_sub20)
  then show ?thesis
    by (simp add: highgainvolts_of_def MILLIVOLTSPERSTEP_HIGHGAIN_def HIGHOFFSET_def unat_narrow)
qed

lemma unat_watts_of: "unat (watts_of a v) = (unat a * unat v div 1000) mod 65536"
proof -
  have "unat a < 2 ^ 16" "unat v < 2 ^ 16" using unsigned_less [of a] unsigned_less [of v] by simp_all
  then have "unat a * unat v < 2 ^ 16 * 2 ^ 16" by (rule mult_strict_mono) simp_all
  then have "unat (ucast a :: uint32_t) * unat (ucast v :: uint32_t) < 2 ^ 32"
    by (simp add: unat_widen)
  then have "unat ((ucast a :: uint32_t) * ucast v) = unat a * unat v"
    by (simp add: unat_mult_lem [THEN iffD1] unat_widen)
  then show ?thesis by (simp add: watts_of_def unat_narrow unat_div)
qed

lemma readadc_10bit: "readadc c \<le> 1023"
proof -
  have "readadc c = take_bit 10 (readadc c)"
    by (rule bit_eqI) (auto simp: readadc_def bit_simps dest: bit_imp_le_length)
  moreover have "unat (take_bit 10 (readadc c)) < 2 ^ 10"
    unfolding unsigned_take_bit_eq by (rule take_bit_nat_less_exp)
  ultimately have "unat (readadc c) < 1024" by simp
  then show ?thesis by (simp add: word_le_nat_alt)
qed

section \<open>Invariants of the loop and the contents of the windows\<close>

lemma unat_cursor: "unat (word_of_nat (n mod SAMPLES) :: uint8_t) = n mod SAMPLES"
proof -
  have "n mod SAMPLES < 12" by (simp add: SAMPLES_def)
  then have "n mod SAMPLES < 2 ^ 8" by simp
  then show ?thesis by (simp add: unat_of_nat take_bit_nat_eq_self)
qed

lemma unat_sample_checkstate:
  "unat (sample (checkstate i s)) = (unat (sample s) + 1) mod SAMPLES"
  by (simp add: checkstate_windows unat_cursor)

lemma wf_initial: "wf_state initial_state" "windows_10bit initial_state"
  by (simp_all add: wf_state_def windows_10bit_def initial_state_def SAMPLES_def list_all_iff)

lemma wf_checkstate: "wf_state s \<Longrightarrow> wf_state (checkstate i s)"
  by (simp add: wf_state_def checkstate_windows unat_cursor)

lemma wf_main_iteration: "wf_state s \<Longrightarrow> wf_state (main_iteration i s)"
  using wf_checkstate [of s i] by (simp add: wf_state_def)

lemma wf_main_loop: "wf_state s \<Longrightarrow> wf_state (main_loop is s)"
  by (induction "is" arbitrary: s) (simp_all add: wf_main_iteration)

lemma list_all_update: "list_all P xs \<Longrightarrow> P v \<Longrightarrow> list_all P (xs[n := v])"
  using set_update_subset_insert [of xs n v] by (auto simp: list_all_iff)

lemma windows_10bit_checkstate: "windows_10bit s \<Longrightarrow> windows_10bit (checkstate i s)"
  by (simp add: windows_10bit_def wf_checkstate checkstate_windows list_all_update readadc_10bit)

lemma windows_10bit_main_iteration: "windows_10bit s \<Longrightarrow> windows_10bit (main_iteration i s)"
  using windows_10bit_checkstate [of s i] by (simp add: windows_10bit_def wf_state_def)

lemma windows_10bit_main_loop: "windows_10bit s \<Longrightarrow> windows_10bit (main_loop is s)"
  by (induction "is" arbitrary: s) (simp_all add: windows_10bit_main_iteration)

lemma reachable_windows_10bit: "windows_10bit (main_loop is initial_state)"
  by (rule windows_10bit_main_loop) (rule wf_initial(2))

lemma main_loop_snoc: "main_loop (is @ [i]) s = main_iteration i (main_loop is s)"
  by (induction "is" arbitrary: s) simp_all

lemma main_loop_constants [simp]:
  "lvc (main_loop is s) = lvc s" "targetamps (main_loop is s) = targetamps s"
  by (induction "is" arbitrary: s) simp_all

lemma main_loop_cursor_windows:
  "shuntsamples (main_loop is s)
     = feed (map (\<lambda>i. readadc (adc_shunt i)) is) (unat (sample s)) (shuntsamples s)"
  "voltsamples (main_loop is s)
     = feed (map (\<lambda>i. readadc (adc_vin i)) is) (unat (sample s)) (voltsamples s)"
  "volthighgainsamples (main_loop is s)
     = feed (map (\<lambda>i. readadc (adc_vin_highgain i)) is) (unat (sample s)) (volthighgainsamples s)"
  by (induction "is" arbitrary: s) (simp_all add: checkstate_windows unat_cursor)

lemma length_feed [simp]: "length (feed xs p w) = length w"
  by (induction xs arbitrary: p w) simp_all

lemma mod12_small: "a < 24 \<Longrightarrow> a mod 12 = (if a < 12 then a else a - (12::nat))"
  by (simp add: mod_if)

lemma feed_constant:
  assumes "\<forall>x\<in>set xs. x = c" and "p < SAMPLES" and "j < SAMPLES" and "length w = SAMPLES"
  shows "feed xs p w ! j = (if (j + SAMPLES - p) mod SAMPLES < length xs then c else w ! j)"
  using assms
proof (induction xs arbitrary: p w)
  case Nil
  then show ?case by simp
next
  case (Cons x xs)
  let ?p = "(p + 1) mod SAMPLES"
  have p': "?p < SAMPLES" by (simp add: SAMPLES_def)
  have x: "x = c" using Cons.prems by simp
  have ih: "feed xs ?p (w[p := c]) ! j =
      (if (j + SAMPLES - ?p) mod SAMPLES < length xs then c else w[p := c] ! j)"
    using Cons.prems by (intro Cons.IH p') simp_all
  have step: "feed (x # xs) p w ! j = feed xs ?p (w[p := c]) ! j"
    by (simp only: feed.simps x)
  show ?case
  proof (cases "j = p")
    case True
    have e: "w[p := c] ! j = c" using True Cons.prems(2,4) by simp
    have "feed xs ?p (w[p := c]) ! j = c" by (simp only: ih e if_cancel)
    moreover have "(j + SAMPLES - p) mod SAMPLES = 0" using True by simp
    ultimately show ?thesis unfolding step by simp
  next
    case False
    have "(j + SAMPLES - ?p) mod SAMPLES < length xs
        \<longleftrightarrow> (j + SAMPLES - p) mod SAMPLES < Suc (length xs)"
      using False Cons.prems(2,3) by (simp add: SAMPLES_def mod12_small) linarith
    moreover have "w[p := c] ! j = w ! j" using False by simp
    ultimately show ?thesis unfolding step ih by simp
  qed
qed

lemma feed_full:
  assumes "\<forall>x\<in>set xs. x = c" and "SAMPLES \<le> length xs" and "p < SAMPLES"
    and "length w = SAMPLES"
  shows "feed xs p w = replicate SAMPLES c"
proof (rule nth_equalityI)
  show "length (feed xs p w) = length (replicate SAMPLES c)" using assms by simp
next
  fix j assume "j < length (feed xs p w)"
  then have j: "j < SAMPLES" using assms by simp
  have "(j + SAMPLES - p) mod SAMPLES < SAMPLES" by (simp add: SAMPLES_def)
  then have "(j + SAMPLES - p) mod SAMPLES < length xs" using assms(2) by linarith
  then show "feed xs p w ! j = replicate SAMPLES c ! j"
    using feed_constant [OF assms(1,3) j assms(4)] j by simp
qed

lemma smoothed_replicate: "smoothed (replicate SAMPLES c) = ucast c"
proof -
  have "unat (smoothed (replicate SAMPLES c)) = unat c"
    by (simp add: unat_smoothed window_mean_def sum_list_replicate) (simp add: SAMPLES_def)
  then have "unat (smoothed (replicate SAMPLES c)) = unat (ucast c :: uint32_t)"
    by (simp add: unat_widen)
  then show ?thesis by (rule word_unat_eq_iff [THEN iffD2])
qed

lemma checkstate_amps: "amps (checkstate i s) = amps_of (smoothed (shuntsamples (checkstate i s)))"
  by (simp add: checkstate_def checkstate_measure_values)

lemma checkstate_highgain:
  "highgain (checkstate i s) = (lowgainvolts_of (smoothed (voltsamples (checkstate i s))) \<le> 6000)"
  by (simp add: checkstate_def checkstate_measure_values select_volts_def Let_def)

lemma checkstate_volts:
  "volts (checkstate i s) =
     (if highgain (checkstate i s)
      then highgainvolts_of (smoothed (volthighgainsamples (checkstate i s)))
      else lowgainvolts_of (smoothed (voltsamples (checkstate i s))))"
  by (simp add: checkstate_def checkstate_measure_values select_volts_def Let_def)

lemma checkstate_watts:
  "watts (checkstate i s) = watts_of (amps (checkstate i s)) (volts (checkstate i s))"
  by (simp add: checkstate_def checkstate_measure_values)

lemma main_loop_full_window:
  assumes "wf_state s" and "SAMPLES \<le> length is"
  shows "(\<forall>i\<in>set is. readadc (adc_shunt i) = c) \<Longrightarrow>
           shuntsamples (main_loop is s) = replicate SAMPLES c"
    and "(\<forall>i\<in>set is. readadc (adc_vin i) = c) \<Longrightarrow>
           voltsamples (main_loop is s) = replicate SAMPLES c"
    and "(\<forall>i\<in>set is. readadc (adc_vin_highgain i) = c) \<Longrightarrow>
           volthighgainsamples (main_loop is s) = replicate SAMPLES c"
  using assms unfolding main_loop_cursor_windows wf_state_def
  by (auto intro!: feed_full)

lemma checkstate_fan_on: "fan_on (checkstate i s) = (2500 < unat (watts (checkstate i s)))"
proof -
  have f: "\<And>s. fan_on (checkstate_fan s) = (2500 < unat (watts s))"
    by (simp add: checkstate_fan_def turnonfan_def turnofffan_def fan_on_def
        FANWATTTHRESHOLD_def bit_simps word_less_nat_alt)
  show ?thesis by (simp add: checkstate_def f)
qed

lemma main_loop_measured:
  assumes "is \<noteq> []"
  shows "amps (main_loop is s) = amps_of (smoothed (shuntsamples (main_loop is s)))"
    and "highgain (main_loop is s) = (lowgainvolts_of (smoothed (voltsamples (main_loop is s))) \<le> 6000)"
    and "volts (main_loop is s) =
           (if highgain (main_loop is s)
            then highgainvolts_of (smoothed (volthighgainsamples (main_loop is s)))
            else lowgainvolts_of (smoothed (voltsamples (main_loop is s))))"
    and "watts (main_loop is s) = watts_of (amps (main_loop is s)) (volts (main_loop is s))"
    and "fan_on (main_loop is s) = (2500 < unat (watts (main_loop is s)))"
proof -
  from assms obtain js i where e: "is = js @ [i]" by (metis rev_exhaust)
  let ?t = "main_loop js s"
  show "amps (main_loop is s) = amps_of (smoothed (shuntsamples (main_loop is s)))"
    unfolding e main_loop_snoc using checkstate_amps [of i ?t] by simp
  show "highgain (main_loop is s) = (lowgainvolts_of (smoothed (voltsamples (main_loop is s))) \<le> 6000)"
    unfolding e main_loop_snoc using checkstate_highgain [of i ?t] by simp
  show "volts (main_loop is s) =
           (if highgain (main_loop is s)
            then highgainvolts_of (smoothed (volthighgainsamples (main_loop is s)))
            else lowgainvolts_of (smoothed (voltsamples (main_loop is s))))"
    unfolding e main_loop_snoc using checkstate_volts [of i ?t] by simp
  show "watts (main_loop is s) = watts_of (amps (main_loop is s)) (volts (main_loop is s))"
    unfolding e main_loop_snoc using checkstate_watts [of i ?t] by simp
  show "fan_on (main_loop is s) = (2500 < unat (watts (main_loop is s)))"
    unfolding e main_loop_snoc using checkstate_fan_on [of i ?t] by simp
qed

lemma steady_readings:
  assumes "readadc (adc_shunt i) = a" "readadc (adc_vin i) = b" "readadc (adc_vin_highgain i) = c"
  shows "amps (main_loop (replicate 12 i) initial_state) = amps_of (ucast a)"
    and "highgain (main_loop (replicate 12 i) initial_state) = (lowgainvolts_of (ucast b) \<le> 6000)"
    and "volts (main_loop (replicate 12 i) initial_state) =
           (if lowgainvolts_of (ucast b) \<le> 6000 then highgainvolts_of (ucast c)
            else lowgainvolts_of (ucast b))"
proof -
  let ?is = "replicate 12 i"
  have l: "SAMPLES \<le> length ?is" by (simp add: SAMPLES_def)
  have w: "shuntsamples (main_loop ?is initial_state) = replicate SAMPLES a"
    "voltsamples (main_loop ?is initial_state) = replicate SAMPLES b"
    "volthighgainsamples (main_loop ?is initial_state) = replicate SAMPLES c"
    using assms by (simp_all add: main_loop_full_window [OF wf_initial(1) l])
  have ne: "?is \<noteq> []" by simp
  show "amps (main_loop ?is initial_state) = amps_of (ucast a)"
    by (simp only: main_loop_measured(1) [OF ne] w smoothed_replicate)
  show h: "highgain (main_loop ?is initial_state) = (lowgainvolts_of (ucast b) \<le> 6000)"
    by (simp only: main_loop_measured(2) [OF ne] w smoothed_replicate)
  show "volts (main_loop ?is initial_state) =
           (if lowgainvolts_of (ucast b) \<le> 6000 then highgainvolts_of (ucast c)
            else lowgainvolts_of (ucast b))"
    by (simp only: main_loop_measured(3) [OF ne] h w smoothed_replicate)
qed

lemma checkstate_regulate:
  assumes "om s = OPMODE_ON" and "\<not> volts (checkstate i s) < lvc s"
  shows "om (checkstate i s) = OPMODE_ON"
    and "loadduty (checkstate i s) =
           (if amps (checkstate i s) < targetamps s \<and> 300 < loadduty s then loadduty s - 1
            else if targetamps s < amps (checkstate i s) \<and> loadduty s < 1000 then loadduty s + 1
            else loadduty s)"
proof -
  let ?m = "checkstate_fan (checkstate_measure (checkstate_sample i s))"
  have m: "om ?m = OPMODE_ON" "\<not> volts ?m < lvc ?m"
    using assms by (simp_all add: checkstate_measured)
  show "om (checkstate i s) = OPMODE_ON"
    unfolding checkstate_def by (rule checkstate_switch_regulate(1) [OF m])
  show "loadduty (checkstate i s) =
           (if amps (checkstate i s) < targetamps s \<and> 300 < loadduty s then loadduty s - 1
            else if targetamps s < amps (checkstate i s) \<and> loadduty s < 1000 then loadduty s + 1
            else loadduty s)"
    unfolding checkstate_measured
    unfolding checkstate_def checkstate_switch_regulate(2) [OF m] by simp
qed

lemma unat_duty_dec: "300 < (d :: uint16_t) \<Longrightarrow> unat (d - 1) = unat d - 1"
  by (rule unat_minus_one) auto

lemma unat_duty_inc: "(d :: uint16_t) < 1000 \<Longrightarrow> unat (d + 1) = unat d + 1"
proof -
  assume "d < 1000"
  then have "unat d < 1000" by (simp add: word_less_nat_alt)
  then have "unat d + unat (1 :: uint16_t) < 2 ^ LENGTH(16)" by simp
  then show ?thesis by (simp add: unat_add_lem [THEN iffD1])
qed

lemma main_iteration_held:
  assumes "om s = OPMODE_ON" and "\<not> volts (checkstate i s) < lvc s"
    and "amps (checkstate i s) < targetamps s" and "\<not> start_pressed i"
  shows "om (main_iteration i s) = OPMODE_ON"
    and "unat (loadduty (main_iteration i s))
           = (if 300 < unat (loadduty s) then unat (loadduty s) - 1 else unat (loadduty s))"
proof -
  let ?c = "checkstate i s"
  have on: "om ?c = OPMODE_ON" using assms(1,2) by (rule checkstate_regulate(1))
  have d: "loadduty ?c = (if 300 < loadduty s then loadduty s - 1 else loadduty s)"
    using checkstate_regulate(2) [OF assms(1,2)] assms(3) by auto
  have n: "\<not> (start_pressed i \<and> om ?c = OPMODE_ON)" using assms(4) by simp
  show "om (main_iteration i s) = OPMODE_ON"
    using on assms(4) by (simp add: main_iteration_control checkbuttons_om)
  have "loadduty (main_iteration i s) = loadduty ?c"
    using checkbuttons_duty(2) [OF n] by (simp add: main_iteration_control)
  then show "unat (loadduty (main_iteration i s))
           = (if 300 < unat (loadduty s) then unat (loadduty s) - 1 else unat (loadduty s))"
    unfolding d by (simp add: unat_duty_dec word_less_nat_alt)
qed

lemma regulator_trajectory:
  assumes "om s = OPMODE_ON" and "300 \<le> unat (loadduty s)" and "held_below is s"
  shows "om (main_loop is s) = OPMODE_ON
     \<and> unat (loadduty (main_loop is s)) = max 300 (unat (loadduty s) - length is)"
  using assms
proof (induction "is" arbitrary: s)
  case Nil
  then show ?case by simp
next
  case (Cons i "is")
  from Cons.prems(3) have h: "\<not> volts (checkstate i s) < lvc s"
    "amps (checkstate i s) < targetamps s" "\<not> start_pressed i"
    "held_below is (main_iteration i s)"
    by simp_all
  note st = main_iteration_held [OF Cons.prems(1) h(1,2,3)]
  have lo: "300 \<le> unat (loadduty (main_iteration i s))"
    using st(2) Cons.prems(2) by (simp split: if_splits)
  from Cons.IH [OF st(1) lo h(4)] st(2) Cons.prems(2)
  show ?case by (auto simp: max_def split: if_splits)
qed

section \<open>The claims\<close>

text \<open>
  C1, as amended. In every state whose mode is ON, and for every sampled input for which
  the voltage computed in the iteration is strictly below the cutoff, \<^verbatim>\<open>checkstate\<close> sets
  the mode to LVC and the duty to the sentinel 1025. The regulator is not applied in that
  iteration: the one value loaded into the compare register is 1025, so no duty that was
  first decremented or incremented reaches the load. At the end of the whole iteration
  the duty is still 1025 with that one load, and the mode is LVC when the mode button is
  not pressed in that iteration and OFF when it is, because \<^verbatim>\<open>checkbuttons\<close> then
  acknowledges the cutoff.
\<close>

theorem lvc_cutoff_precedence:
  assumes "om s = OPMODE_ON" and "volts (checkstate i s) < lvc s"
  shows "om (checkstate i s) = OPMODE_LVC \<and> loadduty (checkstate i s) = 1025
     \<and> duty_writes (checkstate i s) = duty_writes s @ [1025]
     \<and> load_disabled (checkstate i s)
     \<and> loadduty (main_iteration i s) = 1025
     \<and> duty_writes (main_iteration i s) = duty_writes s @ [1025]
     \<and> om (main_iteration i s) = (if mode_pressed i then OPMODE_OFF else OPMODE_LVC)"
proof -
  let ?c = "checkstate i s"
  have c: "om ?c = OPMODE_LVC" "loadduty ?c = 1025" "duty_writes ?c = duty_writes s @ [1025]"
    "load_disabled ?c"
    unfolding checkstate_cutoff [OF assms] by (simp_all add: turnoffload_disabled)
  have "\<not> (start_pressed i \<and> om ?c = OPMODE_ON)" using c by simp
  from checkbuttons_duty(2) [OF this] c
  show ?thesis by (simp add: main_iteration_control checkbuttons_om)
qed

theorem lvc_cutoff_precedence_witness:
  "om (initial_state\<lparr>om := OPMODE_ON\<rparr>) = OPMODE_ON
   \<and> volts (checkstate (readings 0 0 256 0xFF) (initial_state\<lparr>om := OPMODE_ON\<rparr>))
       < lvc (initial_state\<lparr>om := OPMODE_ON\<rparr>)
   \<and> om (checkstate (readings 0 0 256 0xFF) (initial_state\<lparr>om := OPMODE_ON\<rparr>)) = OPMODE_LVC
   \<and> loadduty (checkstate (readings 0 0 256 0xFF) (initial_state\<lparr>om := OPMODE_ON\<rparr>)) = 1025
   \<and> duty_writes (checkstate (readings 0 0 256 0xFF) (initial_state\<lparr>om := OPMODE_ON\<rparr>)) = [1024, 1025]"
proof -
  have h1: "om (initial_state\<lparr>om := OPMODE_ON\<rparr>) = OPMODE_ON" by simp
  have h2: "volts (checkstate (readings 0 0 256 0xFF) (initial_state\<lparr>om := OPMODE_ON\<rparr>))
       < lvc (initial_state\<lparr>om := OPMODE_ON\<rparr>)" by code_simp
  from lvc_cutoff_precedence [OF h1 h2] h1 h2 show ?thesis
    by (simp add: initial_state_def)
qed

text \<open>
  C1 as stated fails for the whole iteration of the loop: in mode ON with the voltage
  computed below the cutoff and the mode button pressed (bit 7 of port D low),
  \<^verbatim>\<open>checkstate\<close> enters LVC and \<^verbatim>\<open>checkbuttons\<close>, later in the same iteration, leaves it
  for OFF, so the iteration ends in mode OFF and not in LVC.
\<close>

theorem lvc_cutoff_acknowledged_counterexample:
  "om (initial_state\<lparr>om := OPMODE_ON\<rparr>) = OPMODE_ON
   \<and> volts (checkstate (readings 0 0 256 0x7F) (initial_state\<lparr>om := OPMODE_ON\<rparr>))
       < lvc (initial_state\<lparr>om := OPMODE_ON\<rparr>)
   \<and> om (checkstate (readings 0 0 256 0x7F) (initial_state\<lparr>om := OPMODE_ON\<rparr>)) = OPMODE_LVC
   \<and> om (main_iteration (readings 0 0 256 0x7F) (initial_state\<lparr>om := OPMODE_ON\<rparr>)) = OPMODE_OFF
   \<and> om (main_iteration (readings 0 0 256 0x7F) (initial_state\<lparr>om := OPMODE_ON\<rparr>)) \<noteq> OPMODE_LVC"
proof -
  let ?s = "initial_state\<lparr>om := OPMODE_ON\<rparr>" and ?i = "readings 0 0 256 0x7F"
  have h0: "om ?s = OPMODE_ON" by simp
  have h1: "volts (checkstate ?i ?s) < lvc ?s" by code_simp
  have h2: "om (checkstate ?i ?s) = OPMODE_LVC" by code_simp
  have "om (checkbuttons ?i (checkstate ?i ?s)) = OPMODE_OFF" by code_simp
  then have h3: "om (main_iteration ?i ?s) = OPMODE_OFF" by (simp add: main_iteration_control)
  from h0 h1 h2 h3 show ?thesis by simp
qed

text \<open>
  C2, as amended. \<^verbatim>\<open>state_changeopmode\<close> changes the mode and returns true exactly for the
  three requests ON to OFF, OFF to ON and LVC to OFF. For every other pair of current and
  requested mode, among them OFF to LVC, LVC to ON and SET to LVC, and also ON to LVC and
  OFF to OFF, it returns false and leaves every variable as it was. In both cases no
  variable other than the mode is written.
\<close>

theorem state_changeopmode_table:
  "state_changeopmode newmode s =
     (if (st_om s, newmode) \<in> {(OPMODE_ON, OPMODE_OFF), (OPMODE_OFF, OPMODE_ON), (OPMODE_LVC, OPMODE_OFF)}
      then (True, s\<lparr>st_om := newmode\<rparr>) else (False, s))"
  by (cases "st_om s"; cases newmode) (simp_all add: state_changeopmode_def)

text \<open>
  C2 as stated fails: the transition ON to LVC is listed in the tables of the
  specification, and \<^verbatim>\<open>state_changeopmode\<close> rejects it.
\<close>

theorem state_changeopmode_counterexample:
  "spec_transition_listed OPMODE_ON OPMODE_LVC
   \<and> state_changeopmode OPMODE_LVC (state_c_initial\<lparr>st_om := OPMODE_ON\<rparr>)
       = (False, state_c_initial\<lparr>st_om := OPMODE_ON\<rparr>)"
  by (simp add: spec_transition_listed_def state_changeopmode_def)

text \<open>
  C3. In mode ON, when the voltage computed in the iteration is not below the cutoff,
  \<^verbatim>\<open>checkstate\<close> changes the duty by the bang-bang rule: one less when the amps computed
  are below the target and the duty is above 300; otherwise one more when the amps are
  above the target and the duty is below 1000; otherwise unchanged. Starting in mode ON
  with duty 800, over any run of iterations in which the amps stay below the target (the
  voltage not below the cutoff, the start button not pressed), the duty after \<open>n\<close>
  iterations is 800 - \<open>n\<close> up to the 500th and 300 from then on.
\<close>

theorem regulator_bang_bang:
  "(om s = OPMODE_ON \<and> \<not> volts (checkstate i s) < lvc s \<longrightarrow>
      om (checkstate i s) = OPMODE_ON
      \<and> unat (loadduty (checkstate i s)) =
          (if amps (checkstate i s) < targetamps s \<and> 300 < loadduty s then unat (loadduty s) - 1
           else if targetamps s < amps (checkstate i s) \<and> loadduty s < 1000
           then unat (loadduty s) + 1
           else unat (loadduty s)))
   \<and> (om s = OPMODE_ON \<and> loadduty s = 800 \<and> held_below is s \<longrightarrow>
        om (main_loop is s) = OPMODE_ON
        \<and> unat (loadduty (main_loop is s)) = (if length is \<le> 500 then 800 - length is else 300))"
proof (intro conjI impI)
  assume a: "om s = OPMODE_ON \<and> \<not> volts (checkstate i s) < lvc s"
  then show "om (checkstate i s) = OPMODE_ON" by (simp add: checkstate_regulate(1))
  from a have "loadduty (checkstate i s) =
           (if amps (checkstate i s) < targetamps s \<and> 300 < loadduty s then loadduty s - 1
            else if targetamps s < amps (checkstate i s) \<and> loadduty s < 1000 then loadduty s + 1
            else loadduty s)"
    by (intro checkstate_regulate(2)) simp_all
  then show "unat (loadduty (checkstate i s)) =
          (if amps (checkstate i s) < targetamps s \<and> 300 < loadduty s then unat (loadduty s) - 1
           else if targetamps s < amps (checkstate i s) \<and> loadduty s < 1000
           then unat (loadduty s) + 1
           else unat (loadduty s))"
    by (simp add: unat_duty_dec unat_duty_inc)
next
  assume a: "om s = OPMODE_ON \<and> loadduty s = 800 \<and> held_below is s"
  then have "300 \<le> unat (loadduty s)" by simp
  with a have r: "om (main_loop is s) = OPMODE_ON
     \<and> unat (loadduty (main_loop is s)) = max 300 (unat (loadduty s) - length is)"
    by (intro regulator_trajectory) simp_all
  then show "om (main_loop is s) = OPMODE_ON" by simp
  from r a show "unat (loadduty (main_loop is s)) = (if length is \<le> 500 then 800 - length is else 300)"
    by (auto simp: max_def)
qed

theorem regulator_bang_bang_witness:
  "om (initial_state\<lparr>om := OPMODE_ON\<rparr>) = OPMODE_ON
   \<and> loadduty (initial_state\<lparr>om := OPMODE_ON\<rparr>) = 800
   \<and> \<not> volts (checkstate (readings 0 0 0 0xFF) (initial_state\<lparr>om := OPMODE_ON\<rparr>))
         < lvc (initial_state\<lparr>om := OPMODE_ON\<rparr>)
   \<and> held_below [readings 0 0 0 0xFF, readings 0 0 0 0xFF] (initial_state\<lparr>om := OPMODE_ON\<rparr>)
   \<and> unat (loadduty (checkstate (readings 0 0 0 0xFF) (initial_state\<lparr>om := OPMODE_ON\<rparr>))) = 799
   \<and> unat (loadduty (main_loop [readings 0 0 0 0xFF, readings 0 0 0 0xFF]
                        (initial_state\<lparr>om := OPMODE_ON\<rparr>))) = 798"
proof -
  let ?s = "initial_state\<lparr>om := OPMODE_ON\<rparr>" and ?i = "readings 0 0 0 0xFF"
  have h0: "om ?s = OPMODE_ON" "loadduty ?s = 800" "targetamps ?s = 1000"
    by (simp_all add: initial_state_def)
  have h1: "\<not> volts (checkstate ?i ?s) < lvc ?s" by code_simp
  have h2: "amps (checkstate ?i ?s) < targetamps ?s" by code_simp
  have h3: "held_below [?i, ?i] ?s" by code_simp
  from regulator_bang_bang [of ?s ?i "[?i, ?i]"] h0 h1 h2 h3 show ?thesis by simp
qed

text \<open>
  C4. Every step in which the mode leaves ON ends with the load disabled: the duty is
  the sentinel 1025, above the period 1024 of the PWM, and 1025 is the value last loaded
  into the compare register. This holds for \<^verbatim>\<open>checkstate\<close> (cutoff, ON to LVC), for
  \<^verbatim>\<open>checkbuttons\<close> (start pressed, ON to OFF) and for one whole iteration of the loop.
\<close>

theorem leaving_on_disables_load:
  "(om s = OPMODE_ON \<and> om (checkstate i s) \<noteq> OPMODE_ON \<longrightarrow> load_disabled (checkstate i s))
   \<and> (om s = OPMODE_ON \<and> om (checkbuttons i s) \<noteq> OPMODE_ON \<longrightarrow> load_disabled (checkbuttons i s))
   \<and> (om s = OPMODE_ON \<and> om (main_iteration i s) \<noteq> OPMODE_ON
        \<longrightarrow> load_disabled (main_iteration i s))"
proof (intro conjI impI)
  assume "om s = OPMODE_ON \<and> om (checkstate i s) \<noteq> OPMODE_ON"
  then show "load_disabled (checkstate i s)" using checkstate_on_cases [of s i] by auto
next
  assume a: "om s = OPMODE_ON \<and> om (checkbuttons i s) \<noteq> OPMODE_ON"
  then have "start_pressed i" by (auto simp: checkbuttons_om Let_def split: if_splits)
  with a checkbuttons_duty(1) [of i s] show "load_disabled (checkbuttons i s)"
    by (simp add: load_disabled_def reloadvalue_def)
next
  assume a: "om s = OPMODE_ON \<and> om (main_iteration i s) \<noteq> OPMODE_ON"
  let ?c = "checkstate i s"
  have eq: "load_disabled (main_iteration i s) = load_disabled (checkbuttons i ?c)"
    by (rule load_disabled_cong) (simp_all add: main_iteration_control)
  from a checkstate_on_cases [of s i]
  consider (lvc) "om ?c = OPMODE_LVC" "load_disabled ?c" | (on) "om ?c = OPMODE_ON" by auto
  then show "load_disabled (main_iteration i s)"
  proof cases
    case lvc
    then have "\<not> (start_pressed i \<and> om ?c = OPMODE_ON)" by simp
    from checkbuttons_duty(2) [OF this] lvc(2) show ?thesis
      unfolding eq by (simp add: load_disabled_def reloadvalue_def)
  next
    case on
    with a have "start_pressed i"
      by (auto simp: main_iteration_control checkbuttons_om Let_def split: if_splits)
    with on checkbuttons_duty(1) [of i ?c] show ?thesis
      unfolding eq by (simp add: load_disabled_def reloadvalue_def)
  qed
qed

theorem leaving_on_disables_load_witness:
  "om (initial_state\<lparr>om := OPMODE_ON\<rparr>) = OPMODE_ON
   \<and> om (checkstate (readings 0 0 256 0xF7) (initial_state\<lparr>om := OPMODE_ON\<rparr>)) \<noteq> OPMODE_ON
   \<and> om (checkbuttons (readings 0 0 256 0xF7) (initial_state\<lparr>om := OPMODE_ON\<rparr>)) \<noteq> OPMODE_ON
   \<and> om (main_iteration (readings 0 0 256 0xF7) (initial_state\<lparr>om := OPMODE_ON\<rparr>)) \<noteq> OPMODE_ON
   \<and> load_disabled (checkstate (readings 0 0 256 0xF7) (initial_state\<lparr>om := OPMODE_ON\<rparr>))
   \<and> load_disabled (checkbuttons (readings 0 0 256 0xF7) (initial_state\<lparr>om := OPMODE_ON\<rparr>))
   \<and> load_disabled (main_iteration (readings 0 0 256 0xF7) (initial_state\<lparr>om := OPMODE_ON\<rparr>))"
proof -
  let ?s = "initial_state\<lparr>om := OPMODE_ON\<rparr>" and ?i = "readings 0 0 256 0xF7"
  have h0: "om ?s = OPMODE_ON" by simp
  have h1: "om (checkstate ?i ?s) \<noteq> OPMODE_ON" by code_simp
  have h2: "om (checkbuttons ?i ?s) \<noteq> OPMODE_ON" by code_simp
  have "om (checkbuttons ?i (checkstate ?i ?s)) \<noteq> OPMODE_ON" by code_simp
  then have h3: "om (main_iteration ?i ?s) \<noteq> OPMODE_ON" by (simp add: main_iteration_control)
  from leaving_on_disables_load [of ?s ?i] h0 h1 h2 h3 show ?thesis by blast
qed

text \<open>
  C5. In a state whose windows hold 10-bit codes, which is every state of the loop
  (lemma \<open>reachable_windows_10bit\<close>), the low-gain voltage is the mean of the low-gain
  window times 20, the flag \<^verbatim>\<open>highgain\<close> is set if and only if that value is at most
  6000, and \<^verbatim>\<open>volts\<close> is the high-gain voltage when the flag is set and the low-gain
  voltage otherwise. The selector is the low-gain value alone: 6000 selects high gain and
  6001 does not, whatever the high-gain value is.
\<close>

theorem gain_selection:
  assumes "windows_10bit s"
  shows "unat (lowgainvolts_of (smoothed (voltsamples (checkstate i s))))
           = window_mean (voltsamples (checkstate i s)) * 20
    \<and> highgain (checkstate i s) = (window_mean (voltsamples (checkstate i s)) * 20 \<le> 6000)
    \<and> volts (checkstate i s) =
         (if highgain (checkstate i s)
          then highgainvolts_of (smoothed (volthighgainsamples (checkstate i s)))
          else lowgainvolts_of (smoothed (voltsamples (checkstate i s))))
    \<and> select_volts l h = (l \<le> 6000, if l \<le> 6000 then h else l)
    \<and> select_volts 6000 h = (True, h)
    \<and> select_volts 6001 h = (False, 6001)"
proof -
  let ?w = "voltsamples (checkstate i s)"
  have w: "windows_10bit (checkstate i s)" using assms by (rule windows_10bit_checkstate)
  then have len: "length ?w = SAMPLES" and small: "window_mean ?w \<le> 1023"
    by (simp_all add: windows_10bit_def wf_state_def window_mean_10bit)
  have m: "unat (smoothed ?w) = window_mean ?w" using len by (rule unat_smoothed)
  have "unat (lowgainvolts_of (smoothed ?w)) = (window_mean ?w * 20) mod 65536"
    using small by (simp add: unat_lowgainvolts_of m)
  moreover have "window_mean ?w * 20 < 65536" using small by simp
  ultimately have low: "unat (lowgainvolts_of (smoothed ?w)) = window_mean ?w * 20" by simp
  have "highgain (checkstate i s) = (window_mean ?w * 20 \<le> 6000)"
    unfolding checkstate_highgain by (simp add: word_le_nat_alt low)
  with low checkstate_volts [of i s] show ?thesis
    by (simp add: select_volts_def Let_def)
qed

theorem gain_selection_witness:
  "windows_10bit initial_state
   \<and> highgain (checkstate (readings 0 1023 600 0xFF) initial_state)
       = (window_mean (voltsamples (checkstate (readings 0 1023 600 0xFF) initial_state)) * 20 \<le> 6000)
   \<and> window_mean (voltsamples (checkstate (readings 0 1023 600 0xFF) initial_state)) = 85
   \<and> volts (checkstate (readings 0 1023 600 0xFF) initial_state) = 305"
proof -
  have "window_mean (voltsamples (checkstate (readings 0 1023 600 0xFF) initial_state)) = 85"
    by code_simp
  moreover have "volts (checkstate (readings 0 1023 600 0xFF) initial_state) = 305"
    by code_simp
  ultimately show ?thesis
    using gain_selection [OF wf_initial(2), of "readings 0 1023 600 0xFF"] wf_initial(2)
    by simp
qed


text \<open>
  C7. In a well-formed state \<^verbatim>\<open>checkstate\<close> overwrites, in each of the three windows, the
  slot at the shared cursor with the new reading and advances the cursor modulo 12; the
  smoothed value of a window, from which the measurement is computed, is the arithmetic
  mean of its 12 slots with truncating division. When one raw code \<open>c\<close> is read on a
  channel in each of at least 12 consecutive iterations, the smoothed value of that
  channel is then exactly \<open>c\<close>.
\<close>

theorem sampler_window:
  assumes "wf_state s"
  shows "shuntsamples (checkstate i s) = (shuntsamples s)[unat (sample s) := readadc (adc_shunt i)]
    \<and> voltsamples (checkstate i s) = (voltsamples s)[unat (sample s) := readadc (adc_vin i)]
    \<and> volthighgainsamples (checkstate i s)
        = (volthighgainsamples s)[unat (sample s) := readadc (adc_vin_highgain i)]
    \<and> unat (sample (checkstate i s)) = (unat (sample s) + 1) mod 12
    \<and> unat (smoothed (shuntsamples (checkstate i s))) = window_mean (shuntsamples (checkstate i s))
    \<and> unat (smoothed (voltsamples (checkstate i s))) = window_mean (voltsamples (checkstate i s))
    \<and> unat (smoothed (volthighgainsamples (checkstate i s)))
        = window_mean (volthighgainsamples (checkstate i s))
    \<and> amps (checkstate i s) = amps_of (smoothed (shuntsamples (checkstate i s)))
    \<and> (12 \<le> length is \<and> (\<forall>i\<in>set is. readadc (adc_shunt i) = c)
         \<longrightarrow> smoothed (shuntsamples (main_loop is s)) = ucast c)
    \<and> (12 \<le> length is \<and> (\<forall>i\<in>set is. readadc (adc_vin i) = c)
         \<longrightarrow> smoothed (voltsamples (main_loop is s)) = ucast c)
    \<and> (12 \<le> length is \<and> (\<forall>i\<in>set is. readadc (adc_vin_highgain i) = c)
         \<longrightarrow> smoothed (volthighgainsamples (main_loop is s)) = ucast c)"
proof -
  have wf: "wf_state (checkstate i s)" using assms by (rule wf_checkstate)
  have means:
    "unat (smoothed (shuntsamples (checkstate i s))) = window_mean (shuntsamples (checkstate i s))"
    "unat (smoothed (voltsamples (checkstate i s))) = window_mean (voltsamples (checkstate i s))"
    "unat (smoothed (volthighgainsamples (checkstate i s)))
        = window_mean (volthighgainsamples (checkstate i s))"
    using wf by (simp_all add: wf_state_def unat_smoothed)
  have cursor: "unat (sample (checkstate i s)) = (unat (sample s) + 1) mod 12"
    using unat_sample_checkstate [of i s] by (simp add: SAMPLES_def)
  have full: "12 \<le> length is \<longleftrightarrow> SAMPLES \<le> length is" by (simp add: SAMPLES_def)
  show ?thesis
    using means cursor checkstate_amps [of i s] main_loop_full_window [OF assms, of "is" c]
    by (simp add: checkstate_windows(1,2,3) full smoothed_replicate)
qed

theorem sampler_window_witness:
  "wf_state initial_state
   \<and> 12 \<le> length (replicate 12 (readings 5 600 7 0xFF))
   \<and> readadc (adc_shunt (readings 5 600 7 0xFF)) = 5
   \<and> readadc (adc_vin (readings 5 600 7 0xFF)) = 600
   \<and> readadc (adc_vin_highgain (readings 5 600 7 0xFF)) = 7
   \<and> smoothed (shuntsamples (main_loop (replicate 12 (readings 5 600 7 0xFF)) initial_state)) = 5
   \<and> smoothed (voltsamples (main_loop (replicate 12 (readings 5 600 7 0xFF)) initial_state)) = 600
   \<and> smoothed (volthighgainsamples (main_loop (replicate 12 (readings 5 600 7 0xFF)) initial_state)) = 7
   \<and> shuntsamples (checkstate (readings 5 600 7 0xFF) initial_state) = 5 # replicate 11 0
   \<and> unat (sample (checkstate (readings 5 600 7 0xFF) initial_state)) = 1"
proof -
  let ?i = "readings 5 600 7 0xFF"
  have r: "readadc (adc_shunt ?i) = 5" "readadc (adc_vin ?i) = 600" "readadc (adc_vin_highgain ?i) = 7"
    by (simp_all add: readings_def adc_code_def readadc_def)
  have h: "\<forall>i\<in>set (replicate 12 ?i). readadc (adc_shunt i) = 5"
    "\<forall>i\<in>set (replicate 12 ?i). readadc (adc_vin i) = 600"
    "\<forall>i\<in>set (replicate 12 ?i). readadc (adc_vin_highgain i) = 7"
    using r by simp_all
  have c: "shuntsamples (checkstate ?i initial_state) = 5 # replicate 11 0"
    "unat (sample (checkstate ?i initial_state)) = 1"
    by code_simp+
  have u: "(ucast (5 :: uint16_t) :: uint32_t) = 5" "(ucast (600 :: uint16_t) :: uint32_t) = 600"
    "(ucast (7 :: uint16_t) :: uint32_t) = 7"
    by simp_all
  have l: "12 \<le> length (replicate 12 ?i)" by simp
  from sampler_window [OF wf_initial(1), of ?i "replicate 12 ?i" 5]
  have "smoothed (shuntsamples (main_loop (replicate 12 ?i) initial_state)) = 5"
    using h(1) l unfolding u by blast
  moreover from sampler_window [OF wf_initial(1), of ?i "replicate 12 ?i" 600]
  have "smoothed (voltsamples (main_loop (replicate 12 ?i) initial_state)) = 600"
    using h(2) l unfolding u by blast
  moreover from sampler_window [OF wf_initial(1), of ?i "replicate 12 ?i" 7]
  have "smoothed (volthighgainsamples (main_loop (replicate 12 ?i) initial_state)) = 7"
    using h(3) l unfolding u by blast
  ultimately show ?thesis using r l c wf_initial(1) by blast
qed

text \<open>
  C8. After \<^verbatim>\<open>checkstate\<close>, and at the end of the iteration, the fan bit is set if and only
  if the watts computed in that iteration are strictly above 2500: 2500 gives fan off and
  2501 gives fan on. The result does not depend on what the output register held before.
\<close>

theorem fan_threshold:
  "fan_on (checkstate i s) = (2500 < unat (watts (checkstate i s)))
   \<and> fan_on (main_iteration i s) = (2500 < unat (watts (main_iteration i s)))
   \<and> \<not> fan_on (checkstate_fan (s\<lparr>watts := 2500\<rparr>))
   \<and> fan_on (checkstate_fan (s\<lparr>watts := 2501\<rparr>))
   \<and> fan_on (checkstate i (s\<lparr>PB_ODR := b\<rparr>)) = fan_on (checkstate i s)"
proof -
  have w: "watts (checkstate i (s\<lparr>PB_ODR := b\<rparr>)) = watts (checkstate i s)"
    by (simp add: checkstate_watts checkstate_amps checkstate_volts checkstate_highgain
        checkstate_windows)
  have f: "\<And>s. fan_on (checkstate_fan s) = (2500 < unat (watts s))"
    by (simp add: checkstate_fan_def turnonfan_def turnofffan_def fan_on_def
        FANWATTTHRESHOLD_def bit_simps word_less_nat_alt)
  have "fan_on (checkstate i s) = (2500 < unat (watts (checkstate i s)))" for s
    by (simp add: checkstate_def f)
  then show ?thesis by (simp add: f w)
qed

text \<open>
  C9, as amended. The high-gain voltage is computed in unsigned 32-bit arithmetic and
  the assignment keeps the low 16 bits: the value stored is the quotient
  (mean * 65) div 10 minus 20, modulo 65536. When the quotient is below 20 the stored
  value is 65516 plus the quotient. With all 12 high-gain slots zero and a low-gain
  voltage of at most 6000 the reported volts are 65516, as in the first iteration after
  the start with readings of zero. 65516 is not below any cutoff up to 65516, so the
  cutoff does not trigger there; the program never writes the cutoff, which stays 2000.
\<close>

theorem highgain_offset_wrap:
  assumes "length w = SAMPLES"
  shows "unat (highgainvolts_of (smoothed w)) = (window_mean w * 65 div 10 + 65516) mod 65536
    \<and> (window_mean w * 65 div 10 < 20
         \<longrightarrow> unat (highgainvolts_of (smoothed w)) = 65516 + window_mean w * 65 div 10)
    \<and> (lowgainvolts_of (smoothed (voltsamples (checkstate i s))) \<le> 6000
         \<and> volthighgainsamples (checkstate i s) = replicate SAMPLES 0
         \<longrightarrow> volts (checkstate i s) = 65516)
    \<and> volts (checkstate (readings 0 0 0 0xFF) initial_state) = 65516
    \<and> lvc (main_loop is initial_state) = 2000
    \<and> (om s = OPMODE_ON \<and> lvc s \<le> 65516 \<and> volts (checkstate i s) = 65516
         \<longrightarrow> om (checkstate i s) = OPMODE_ON)"
proof -
  have m: "unat (smoothed w) = window_mean w" using assms by (rule unat_smoothed)
  have "window_mean w \<le> 65535" using assms by (rule window_mean_bound)
  then have a: "unat (highgainvolts_of (smoothed w)) = (window_mean w * 65 div 10 + 65516) mod 65536"
    using unat_highgainvolts_of [of "smoothed w"] by (simp add: m)
  have b: "window_mean w * 65 div 10 < 20
       \<longrightarrow> unat (highgainvolts_of (smoothed w)) = 65516 + window_mean w * 65 div 10"
    unfolding a by simp
  have z: "highgainvolts_of 0 = 65516"
    by (simp add: highgainvolts_of_def MILLIVOLTSPERSTEP_HIGHGAIN_def HIGHOFFSET_def)
  have c: "lowgainvolts_of (smoothed (voltsamples (checkstate i s))) \<le> 6000
         \<and> volthighgainsamples (checkstate i s) = replicate SAMPLES 0
       \<longrightarrow> volts (checkstate i s) = 65516"
    using checkstate_volts [of i s] checkstate_highgain [of i s]
    by (auto simp: smoothed_replicate z)
  have d: "volts (checkstate (readings 0 0 0 0xFF) initial_state) = 65516" by code_simp
  have e: "lvc (main_loop is initial_state) = 2000" by (simp add: initial_state_def)
  have f: "om s = OPMODE_ON \<and> lvc s \<le> 65516 \<and> volts (checkstate i s) = 65516
       \<longrightarrow> om (checkstate i s) = OPMODE_ON"
    using checkstate_on_cases [of s i] by auto
  from a b c d e f show ?thesis by blast
qed

theorem highgain_offset_wrap_witness:
  "length (volthighgainsamples (checkstate (readings 0 0 36 0xFF) (initial_state\<lparr>om := OPMODE_ON\<rparr>)))
     = SAMPLES
   \<and> window_mean (volthighgainsamples (checkstate (readings 0 0 36 0xFF) (initial_state\<lparr>om := OPMODE_ON\<rparr>)))
       * 65 div 10 < 20
   \<and> unat (highgainvolts_of (smoothed
         (volthighgainsamples (checkstate (readings 0 0 36 0xFF) (initial_state\<lparr>om := OPMODE_ON\<rparr>)))))
       = 65535
   \<and> lowgainvolts_of (smoothed (voltsamples
         (checkstate (readings 0 0 0 0xFF) (initial_state\<lparr>om := OPMODE_ON\<rparr>)))) \<le> 6000
   \<and> volthighgainsamples (checkstate (readings 0 0 0 0xFF) (initial_state\<lparr>om := OPMODE_ON\<rparr>))
       = replicate SAMPLES 0
   \<and> lvc (initial_state\<lparr>om := OPMODE_ON\<rparr>) \<le> 65516
   \<and> volts (checkstate (readings 0 0 0 0xFF) (initial_state\<lparr>om := OPMODE_ON\<rparr>)) = 65516
   \<and> om (checkstate (readings 0 0 0 0xFF) (initial_state\<lparr>om := OPMODE_ON\<rparr>)) = OPMODE_ON"
proof -
  let ?s = "initial_state\<lparr>om := OPMODE_ON\<rparr>"
  let ?w = "volthighgainsamples (checkstate (readings 0 0 36 0xFF) ?s)"
  have h1: "length ?w = SAMPLES" by code_simp
  have h2: "window_mean ?w * 65 div 10 < 20" by code_simp
  have h3: "window_mean ?w * 65 div 10 = 19" by code_simp
  have h4: "lowgainvolts_of (smoothed (voltsamples (checkstate (readings 0 0 0 0xFF) ?s))) \<le> 6000"
    by code_simp
  have h5: "volthighgainsamples (checkstate (readings 0 0 0 0xFF) ?s) = replicate SAMPLES 0"
    by code_simp
  have h6: "om ?s = OPMODE_ON" "lvc ?s \<le> 65516" by (simp_all add: initial_state_def)
  from highgain_offset_wrap [OF h1, of "readings 0 0 0 0xFF" ?s] h1 h2 h3 h4 h5 h6
  show ?thesis by simp
qed

text \<open>
  C9 as stated fails. Evaluated in unsigned 16-bit arithmetic the product 1023 * 65
  would wrap and the result would be 75; the code computes 6629 for a window of the code
  1023. And 65516 does not exceed every 16-bit cutoff: with a cutoff of 65535 the
  reported 65516 is below it.
\<close>

theorem highgain_16bit_counterexample:
  "highgainvolts_of (smoothed (replicate SAMPLES 1023)) = 6629
   \<and> highgainvolts_16bit 1023 = 75
   \<and> volts (checkstate (readings 0 0 0 0xFF) (initial_state\<lparr>lvc := 65535\<rparr>)) = 65516
   \<and> volts (checkstate (readings 0 0 0 0xFF) (initial_state\<lparr>lvc := 65535\<rparr>))
       < lvc (initial_state\<lparr>lvc := 65535\<rparr>)"
proof -
  have "highgainvolts_of 1023 = 6629"
    by (simp add: highgainvolts_of_def MILLIVOLTSPERSTEP_HIGHGAIN_def HIGHOFFSET_def)
  moreover have "highgainvolts_16bit 1023 = 75" by (simp add: highgainvolts_16bit_def)
  moreover have "volts (checkstate (readings 0 0 0 0xFF) (initial_state\<lparr>lvc := 65535\<rparr>)) = 65516"
    by code_simp
  ultimately show ?thesis by (simp add: smoothed_replicate)
qed

text \<open>
  C10, as amended. The watts are the quotient (amps * volts) div 1000, computed in 32
  bits without overflow, and the assignment keeps the low 16 bits: the stored value is the
  quotient modulo 65536, so it differs from the quotient whenever that exceeds 65535.
  Such values are reached from 10-bit codes: with the codes 1023 on the shunt and on the
  low-gain channel held for 12 iterations, amps are 3478, volts are 20460, the quotient is
  71159 and the watts stored are 5623. The fan is switched on the stored value: with the
  codes 1023 and 950 the quotient is 66082, far above 2500, the watts stored are 546 and
  the fan is off.
\<close>

theorem watts_narrowing:
  "unat (watts_of a v) = (unat a * unat v div 1000) mod 65536
   \<and> watts (checkstate i s) = watts_of (amps (checkstate i s)) (volts (checkstate i s))
   \<and> (65535 < unat a * unat v div 1000 \<longrightarrow> unat (watts_of a v) \<noteq> unat a * unat v div 1000)
   \<and> (let s' = main_loop (replicate 12 (readings 1023 1023 0 0xFF)) initial_state
      in amps s' = 3478 \<and> volts s' = 20460 \<and> unat (amps s') * unat (volts s') div 1000 = 71159
         \<and> watts s' = 5623 \<and> fan_on s')
   \<and> (let s' = main_loop (replicate 12 (readings 1023 950 0 0xFF)) initial_state
      in amps s' = 3478 \<and> volts s' = 19000 \<and> unat (amps s') * unat (volts s') div 1000 = 66082
         \<and> watts s' = 546 \<and> \<not> fan_on s')"
proof -
  have a: "unat (watts_of a v) = (unat a * unat v div 1000) mod 65536" by (rule unat_watts_of)
  have b: "65535 < unat a * unat v div 1000 \<longrightarrow> unat (watts_of a v) \<noteq> unat a * unat v div 1000"
  proof
    assume "65535 < unat a * unat v div 1000"
    moreover have "unat (watts_of a v) < 65536" unfolding a by simp
    ultimately show "unat (watts_of a v) \<noteq> unat a * unat v div 1000" by simp
  qed
  have r1: "readadc (adc_shunt (readings 1023 1023 0 0xFF)) = 1023"
    "readadc (adc_vin (readings 1023 1023 0 0xFF)) = 1023"
    "readadc (adc_vin_highgain (readings 1023 1023 0 0xFF)) = 0"
    by (simp_all add: readings_def adc_code_def readadc_def)
  have r2: "readadc (adc_shunt (readings 1023 950 0 0xFF)) = 1023"
    "readadc (adc_vin (readings 1023 950 0 0xFF)) = 950"
    "readadc (adc_vin_highgain (readings 1023 950 0 0xFF)) = 0"
    by (simp_all add: readings_def adc_code_def readadc_def)
  have v: "amps_of 1023 = 3478" "lowgainvolts_of 1023 = 20460" "lowgainvolts_of 950 = 19000"
    "watts_of 3478 20460 = 5623" "watts_of 3478 19000 = 546"
    by (simp_all add: amps_of_def lowgainvolts_of_def watts_of_def MICROVOLTSPERSTEP_SHUNT_def
        MILLIVOLTSPERSTEP_def)
  let ?s1 = "main_loop (replicate 12 (readings 1023 1023 0 0xFF)) initial_state"
  let ?s2 = "main_loop (replicate 12 (readings 1023 950 0 0xFF)) initial_state"
  have ne: "replicate 12 x \<noteq> []" for x :: inputs by simp
  have m1: "amps ?s1 = 3478" "volts ?s1 = 20460"
    using steady_readings(1,3) [OF r1] by (simp_all add: v)
  have w1: "watts ?s1 = 5623" using main_loop_measured(4) [OF ne, of _ initial_state] m1 v by simp
  have f1: "fan_on ?s1" using main_loop_measured(5) [OF ne, of _ initial_state] w1 by simp
  have m2: "amps ?s2 = 3478" "volts ?s2 = 19000"
    using steady_readings(1,3) [OF r2] by (simp_all add: v)
  have w2: "watts ?s2 = 546" using main_loop_measured(4) [OF ne, of _ initial_state] m2 v by simp
  have f2: "\<not> fan_on ?s2" using main_loop_measured(5) [OF ne, of _ initial_state] w2 by simp
  from a b m1 w1 f1 m2 w2 f2 checkstate_watts [of i s] show ?thesis by (simp add: Let_def)
qed

theorem watts_narrowing_witness:
  "65535 < unat (3478 :: uint16_t) * unat (20460 :: uint16_t) div 1000
   \<and> unat (watts_of 3478 20460) \<noteq> unat (3478 :: uint16_t) * unat (20460 :: uint16_t) div 1000
   \<and> unat (watts_of 3478 20460) = 5623"
  using watts_narrowing [of 3478 20460] by simp

text \<open>
  C10 as stated fails on its example: for amps 3478 and volts 20460 the quotient is
  71159, not 71167, and the watts stored are 5623, not 5631.
\<close>

theorem watts_example_counterexample:
  "unat (3478 :: uint16_t) * unat (20460 :: uint16_t) div 1000 = 71159
   \<and> watts_of 3478 20460 = 5623
   \<and> watts_of 3478 20460 \<noteq> 5631"
  by (simp add: watts_of_def)

end
